theory Spec2Isabelle
  imports Main "HOL-Library.AList" "HOL-Library.Sublist" "HOL-Library.List_Lexorder"
    "HOL-Library.Char_ord"
begin

section \<open>Strings and character classes\<close>

text \<open>
  The program is the main process of an Electron application (\<^verbatim>\<open>main.js\<close>).  JavaScript
  strings are modelled as \<^typ>\<open>string\<close>: one \<^typ>\<open>char\<close> per code unit, so the model covers
  the strings whose code units are below 256.  A file holds bytes: \<^verbatim>\<open>stat\<close> reports their
  number, \<^verbatim>\<open>readFile(..., 'utf-8')\<close> decodes them to a string and
  \<^verbatim>\<open>writeFile(..., 'utf-8')\<close> encodes a string to bytes.
\<close>

definition codeOf :: "char \<Rightarrow> nat" where
  "codeOf c = of_char c"

definition isDigit :: "char \<Rightarrow> bool" where
  "isDigit c = (48 \<le> codeOf c \<and> codeOf c \<le> 57)"

definition isLower :: "char \<Rightarrow> bool" where
  "isLower c = (97 \<le> codeOf c \<and> codeOf c \<le> 122)"

definition isUpper :: "char \<Rightarrow> bool" where
  "isUpper c = (65 \<le> codeOf c \<and> codeOf c \<le> 90)"

text \<open>\<^verbatim>\<open>String.prototype.toLowerCase\<close> on code units below 256: the ASCII capitals and the
  Latin-1 capitals (U+00C0 to U+00DE without the multiplication sign) move up by 32.\<close>

definition toLowerChar :: "char \<Rightarrow> char" where
  "toLowerChar c =
     (if isUpper c \<or> (192 \<le> codeOf c \<and> codeOf c \<le> 222 \<and> codeOf c \<noteq> 215)
      then char_of (codeOf c + 32) else c)"

definition toLowerCase :: "string \<Rightarrow> string" where
  "toLowerCase s = map toLowerChar s"

text \<open>The character class \<^verbatim>\<open>[a-z0-9-]\<close>.\<close>

definition isSkillNameChar :: "char \<Rightarrow> bool" where
  "isSkillNameChar c = (isLower c \<or> isDigit c \<or> c = CHR ''-'')"

text \<open>The character class \<^verbatim>\<open>[a-zA-Z0-9._\-]\<close>.\<close>

definition isFileNameChar :: "char \<Rightarrow> bool" where
  "isFileNameChar c =
     (isLower c \<or> isUpper c \<or> isDigit c \<or> c = CHR ''.'' \<or> c = CHR ''_'' \<or> c = CHR ''-'')"

text \<open>\<^verbatim>\<open>String.prototype.startsWith\<close>.\<close>

definition startsWith :: "string \<Rightarrow> string \<Rightarrow> bool" where
  "startsWith s p = (take (length p) s = p)"

text \<open>\<^verbatim>\<open>String.prototype.split\<close> at every character satisfying \<open>sep\<close>; the empty string
  splits into one empty piece.\<close>

fun splitWhen :: "(char \<Rightarrow> bool) \<Rightarrow> string \<Rightarrow> string list" where
  "splitWhen sep [] = [[]]"
| "splitWhen sep (x # xs) =
     (if sep x then [] # splitWhen sep xs
      else (case splitWhen sep xs of [] \<Rightarrow> [[x]] | w # ws \<Rightarrow> (x # w) # ws))"

definition splitSlash :: "string \<Rightarrow> string list" where
  "splitSlash s = splitWhen (\<lambda>c. c = CHR ''/'') s"

text \<open>\<^verbatim>\<open>Array.prototype.join\<close>.\<close>

fun joinWith :: "string \<Rightarrow> string list \<Rightarrow> string" where
  "joinWith sep [] = []"
| "joinWith sep [x] = x"
| "joinWith sep (x # y # ys) = x @ sep @ joinWith sep (y # ys)"

definition joinSlash :: "string list \<Rightarrow> string" where
  "joinSlash segs = joinWith ''/'' segs"

text \<open>Decimal rendering of a number, as a template literal does it.\<close>

definition digitChar :: "nat \<Rightarrow> char" where
  "digitChar d = char_of (48 + d)"

fun showNat :: "nat \<Rightarrow> string" where
  "showNat n = (if n < 10 then [digitChar n] else showNat (n div 10) @ [digitChar (n mod 10)])"

declare showNat.simps [simp del]

section \<open>Exceptions\<close>

text \<open>
  A thrown \<^verbatim>\<open>Error\<close> carries its message; the handlers of the program compare messages.
  \<open>SysError\<close> is a failed call of the \<^verbatim>\<open>fs\<close> module: it carries the error code, the name of
  the function that was called and the paths that the function was given.  A failed schema
  validation is caught by the handler that parses; it is a branch of that handler.
\<close>

datatype exn = Error string | SysError string string "string list"

abbreviation PathEscape :: exn where
  "PathEscape \<equiv> Error ''Invalid path - access denied''"

section \<open>The POSIX path module\<close>

text \<open>
  The functions of Node's \<^verbatim>\<open>path\<close> module that the program calls, in their POSIX form
  (\<^verbatim>\<open>path.sep\<close> is the slash).  \<open>normalizeString\<close> resolves the \<^verbatim>\<open>.\<close> and \<^verbatim>\<open>..\<close> segments;
  the segments kept so far are a stack, most recent first.
\<close>

definition isAbsolute :: "string \<Rightarrow> bool" where
  "isAbsolute p = (case p of [] \<Rightarrow> False | c # _ \<Rightarrow> c = CHR ''/'')"

fun normalizeString :: "bool \<Rightarrow> string list \<Rightarrow> string list \<Rightarrow> string list" where
  "normalizeString allowAboveRoot res [] = rev res"
| "normalizeString allowAboveRoot res (s # ss) =
     (if s = [] \<or> s = ''.'' then normalizeString allowAboveRoot res ss
      else if s = ''..'' then
        (case res of
           [] \<Rightarrow> normalizeString allowAboveRoot (if allowAboveRoot then [''..''] else []) ss
         | t # ts \<Rightarrow>
             if t = ''..''
             then normalizeString allowAboveRoot (if allowAboveRoot then ''..'' # res else res) ss
             else normalizeString allowAboveRoot ts ss)
      else normalizeString allowAboveRoot (s # res) ss)"

definition normalize :: "string \<Rightarrow> string" where
  "normalize p =
     (if p = [] then ''.''
      else
        let isAbs = isAbsolute p;
            trailingSeparator = (last p = CHR ''/'');
            path = joinSlash (normalizeString (\<not> isAbs) [] (splitSlash p))
        in if path = [] then (if isAbs then ''/'' else if trailingSeparator then ''./'' else ''.'')
           else (if isAbs then ''/'' else []) @ path @ (if trailingSeparator then ''/'' else []))"

text \<open>\<^verbatim>\<open>path.join\<close> of a list of arguments.\<close>

definition join :: "string list \<Rightarrow> string" where
  "join parts =
     (let joined = joinSlash (filter (\<lambda>a. a \<noteq> []) parts)
      in if joined = [] then ''.'' else normalize joined)"

text \<open>\<^verbatim>\<open>path.resolve\<close> of one argument; \<open>cwd\<close> is the working directory of the process.\<close>

definition resolve :: "string \<Rightarrow> string \<Rightarrow> string" where
  "resolve cwd p =
     (let resolvedPath =
            (if p = [] then cwd @ ''/''
             else if isAbsolute p then p @ ''/''
             else cwd @ ''/'' @ p @ ''/'');
          resolvedAbsolute = isAbsolute resolvedPath;
          r = joinSlash (normalizeString (\<not> resolvedAbsolute) [] (splitSlash resolvedPath))
      in if resolvedAbsolute then ''/'' @ r else if r = [] then ''.'' else r)"

text \<open>\<^verbatim>\<open>path.basename\<close> with one argument: the last component, trailing slashes ignored.\<close>

definition basename :: "string \<Rightarrow> string" where
  "basename p =
     rev (takeWhile (\<lambda>c. c \<noteq> CHR ''/'') (dropWhile (\<lambda>c. c = CHR ''/'') (rev p)))"

text \<open>\<^verbatim>\<open>path.dirname\<close>: the scan runs from the end down to index 1; \<open>r\<close> is what is left of it
  once the trailing slashes and the last component are passed.\<close>

definition dirname :: "string \<Rightarrow> string" where
  "dirname p =
     (case p of
        [] \<Rightarrow> ''.''
      | c # cs \<Rightarrow>
          let hasRoot = (c = CHR ''/'');
              r = dropWhile (\<lambda>x. x \<noteq> CHR ''/'') (dropWhile (\<lambda>x. x = CHR ''/'') (rev cs))
          in if r = [] then (if hasRoot then ''/'' else ''.'')
             else if hasRoot \<and> length r = 1 then ''//''
             else c # rev (tl r))"

text \<open>\<^verbatim>\<open>path.extname\<close>: from the last dot of the last component, unless there is none, it is the
  component's first character, or the component is \<^verbatim>\<open>..\<close>.\<close>

definition extname :: "string \<Rightarrow> string" where
  "extname p =
     (let b = basename p;
          afterDot = takeWhile (\<lambda>c. c \<noteq> CHR ''.'') (rev b)
      in if CHR ''.'' \<notin> set b then []
         else if length afterDot + 1 = length b then []
         else if b = ''..'' then []
         else CHR ''.'' # rev afterDot)"

section \<open>Sanitizers and the path sandbox\<close>

record env =
  userData :: string
  cwd :: string
  now :: nat
  dirStatSize :: nat
  sysMessage :: "string \<Rightarrow> string \<Rightarrow> string list \<Rightarrow> string"

text \<open>
  The environment of the process: Electron's \<^verbatim>\<open>app.getPath('userData')\<close>, the working
  directory that \<^verbatim>\<open>path.resolve\<close> falls back to, the value of \<^verbatim>\<open>Date.now()\<close>, the size
  that \<^verbatim>\<open>stat\<close> reports for a directory, and the text that the runtime puts in the
  \<^verbatim>\<open>message\<close> of a failed \<^verbatim>\<open>fs\<close> call, given the error code, the function and its paths.
  The program does not build that text; it only passes it on or compares it.
\<close>

definition sanitizeFileName :: "string \<Rightarrow> exn + string" where
  "sanitizeFileName name =
     (let sanitized = filter isFileNameChar name
      in if length sanitized = 0
         then Inl (Error ''Invalid filename - must contain at least one valid character'')
         else if length sanitized > 255
         then Inl (Error ''Filename is too long (max 255 characters)'')
         else Inr sanitized)"

fun sanitizeSegments :: "string list \<Rightarrow> exn + string list" where
  "sanitizeSegments [] = Inr []"
| "sanitizeSegments (segment # rest) =
     (case sanitizeFileName segment of
        Inl e \<Rightarrow> Inl e
      | Inr sanitized \<Rightarrow>
          if sanitized = ''.'' \<or> sanitized = ''..'' then Inl (Error ''Invalid path segment'')
          else (case sanitizeSegments rest of
                  Inl e \<Rightarrow> Inl e
                | Inr sanitizedSegments \<Rightarrow> Inr (sanitized # sanitizedSegments)))"

text \<open>Splitting at \<^verbatim>\<open>/[/\\]+/\<close> and dropping the empty pieces is splitting at every slash and
  backslash and dropping the empty pieces.\<close>

definition sanitizeRelativePath :: "string \<Rightarrow> exn + string" where
  "sanitizeRelativePath relativePath =
     (if relativePath = [] then Inl (Error ''Invalid path'')
      else
        let segments = filter (\<lambda>s. s \<noteq> [])
                         (splitWhen (\<lambda>c. c = CHR ''/'' \<or> c = CHR 0x5C) relativePath)
        in if length segments = 0 then Inl (Error ''Invalid path'')
           else (case sanitizeSegments segments of
                   Inl e \<Rightarrow> Inl e
                 | Inr sanitizedSegments \<Rightarrow> Inr (joinSlash sanitizedSegments)))"

definition getSkillsDir :: "env \<Rightarrow> string" where
  "getSkillsDir e = join [userData e, ''skills'']"

definition validateSkillPath :: "env \<Rightarrow> string \<Rightarrow> string \<Rightarrow> exn + string" where
  "validateSkillPath e requestedPath baseDir =
     (let normalized = normalize requestedPath;
          fullPath = (if isAbsolute normalized then normalized else join [baseDir, normalized]);
          resolvedPath = resolve (cwd e) fullPath;
          resolvedBase = resolve (cwd e) baseDir
      in if \<not> startsWith resolvedPath (resolvedBase @ ''/'') \<and> resolvedPath \<noteq> resolvedBase
         then Inl PathEscape
         else Inr resolvedPath)"

definition sanitizeSkillName :: "string \<Rightarrow> exn + string" where
  "sanitizeSkillName name =
     (let sanitized = filter isSkillNameChar (toLowerCase name)
      in if length sanitized = 0
         then Inl (Error ''Skill name must contain at least one valid character (lowercase letters, numbers, or hyphens)'')
         else if length sanitized > 255
         then Inl (Error ''Skill name is too long (max 255 characters)'')
         else if sanitized = ''skill'' \<or> sanitized = []
         then Inl (Error ''Invalid skill name'')
         else Inr sanitized)"

text \<open>The regular expression \<^verbatim>\<open>^[a-z0-9-]+$\<close>.\<close>

definition matchesSkillNameRegex :: "string \<Rightarrow> bool" where
  "matchesSkillNameRegex s = (s \<noteq> [] \<and> list_all isSkillNameChar s)"

section \<open>File classification\<close>

definition EDITABLE_EXTENSIONS :: "string list" where
  "EDITABLE_EXTENSIONS =
     [''.md'', ''.txt'', ''.js'', ''.py'', ''.json'', ''.html'', ''.css'', ''.yaml'', ''.yml'',
      ''.sh'', ''.bash'', ''.lua'', ''.rb'', ''.go'', ''.rs'', ''.ts'', ''.tsx'', ''.jsx'']"

definition MAX_FILE_SIZE :: nat where
  "MAX_FILE_SIZE = 10 * 1024 * 1024"

definition isEditableFile :: "string \<Rightarrow> bool" where
  "isEditableFile filePath = (toLowerCase (extname filePath) \<in> set EDITABLE_EXTENSIONS)"

definition getFileType :: "string \<Rightarrow> string" where
  "getFileType filePath =
     (let ext = toLowerCase (extname filePath)
      in if ext \<in> set [''.jpg'', ''.jpeg'', ''.png'', ''.gif'', ''.webp'', ''.svg''] then ''image''
         else if ext \<in> set [''.pdf'', ''.doc'', ''.docx'', ''.xls'', ''.xlsx''] then ''document''
         else if ext \<in> set [''.mp4'', ''.webm'', ''.mov'', ''.avi''] then ''video''
         else if ext \<in> set [''.mp3'', ''.wav'', ''.flac''] then ''audio''
         else if isEditableFile filePath then ''text''
         else ''binary'')"

section \<open>The file system\<close>

text \<open>
  The state of the disk is a tree: a file with the bytes it holds, or a directory with its
  entries in the order \<^verbatim>\<open>readdir\<close> lists them.  A byte is a \<^typ>\<open>char\<close>.  A path reaches a
  node through its segments; the segments of a path string are those that \<^verbatim>\<open>path.resolve\<close>
  computes (the program passes resolved paths to every call).  Symbolic links, permissions
  and device errors are outside the model: a call fails only for the shape of the tree.
\<close>

type_synonym bytes = "char list"

datatype node = File bytes | Dir "(string \<times> node) list"

text \<open>
  The encoding \<^verbatim>\<open>'utf-8'\<close>.  A string of the model has code units below 256 only, so a
  code unit is a code point: one below 128 is one byte, another one is two bytes, the first
  of them \<^verbatim>\<open>C2\<close> or \<^verbatim>\<open>C3\<close>.  Decoding reads these sequences back.  Any other byte belongs
  to a text that the strings of the model cannot hold (a code point above 255, or a
  malformed sequence, for which the decoder of the runtime gives U+FFFD); the model puts
  \<open>substitute\<close> in its place.
\<close>

definition utf8EncodeChar :: "char \<Rightarrow> bytes" where
  "utf8EncodeChar c =
     (if codeOf c < 128 then [c]
      else [char_of (192 + codeOf c div 64), char_of (128 + codeOf c mod 64)])"

definition utf8Encode :: "string \<Rightarrow> bytes" where
  "utf8Encode s = concat (map utf8EncodeChar s)"

definition substitute :: char where
  "substitute = char_of (26 :: nat)"

definition isContinuation :: "char \<Rightarrow> bool" where
  "isContinuation b = (128 \<le> codeOf b \<and> codeOf b < 192)"

fun utf8Decode :: "bytes \<Rightarrow> string" where
  "utf8Decode [] = []"
| "utf8Decode [b] = [if codeOf b < 128 then b else substitute]"
| "utf8Decode (b # b' # bs) =
     (if codeOf b < 128 then b # utf8Decode (b' # bs)
      else if (codeOf b = 194 \<or> codeOf b = 195) \<and> isContinuation b'
      then char_of ((codeOf b - 192) * 64 + (codeOf b' - 128)) # utf8Decode bs
      else substitute # utf8Decode (b' # bs))"

text \<open>The code of a call on a path that reaches no node: a regular file on the way gives
  \<^verbatim>\<open>ENOTDIR\<close>, a missing entry \<^verbatim>\<open>ENOENT\<close>.\<close>

fun absentCode :: "node \<Rightarrow> string list \<Rightarrow> string" where
  "absentCode n [] = ''ENOENT''"
| "absentCode (File c) (s # ss) = ''ENOTDIR''"
| "absentCode (Dir es) (s # ss) =
     (case map_of es s of None \<Rightarrow> ''ENOENT'' | Some ch \<Rightarrow> absentCode ch ss)"

text \<open>A failed step on the tree gives an error code; the call that made the step turns it
  into the exception.\<close>

definition fsResult :: "string \<Rightarrow> string list \<Rightarrow> string + 'a \<Rightarrow> exn + 'a" where
  "fsResult call paths r =
     (case r of Inl code \<Rightarrow> Inl (SysError code call paths) | Inr x \<Rightarrow> Inr x)"

fun lookup :: "node \<Rightarrow> string list \<Rightarrow> node option" where
  "lookup n [] = Some n"
| "lookup (File c) (s # ss) = None"
| "lookup (Dir es) (s # ss) = (case map_of es s of None \<Rightarrow> None | Some ch \<Rightarrow> lookup ch ss)"

definition fsSegs :: "env \<Rightarrow> string \<Rightarrow> string list" where
  "fsSegs e p =
     normalizeString False [] (splitSlash (if isAbsolute p then p else cwd e @ ''/'' @ p))"

definition existsSync :: "env \<Rightarrow> node \<Rightarrow> string \<Rightarrow> bool" where
  "existsSync e fs p = (lookup fs (fsSegs e p) \<noteq> None)"

text \<open>\<^verbatim>\<open>fs.readFile(p, 'utf-8')\<close>: the bytes of the file, decoded.\<close>

definition readFile :: "env \<Rightarrow> node \<Rightarrow> string \<Rightarrow> exn + string" where
  "readFile e fs p =
     (case lookup fs (fsSegs e p) of
        None \<Rightarrow> Inl (SysError (absentCode fs (fsSegs e p)) ''readFile'' [p])
      | Some (Dir es) \<Rightarrow> Inl (SysError ''EISDIR'' ''readFile'' [p])
      | Some (File c) \<Rightarrow> Inr (utf8Decode c))"

text \<open>The \<^verbatim>\<open>size\<close> field of \<^verbatim>\<open>fs.stat\<close>: for a file, the number of its bytes.\<close>

definition statSize :: "env \<Rightarrow> node \<Rightarrow> string \<Rightarrow> exn + nat" where
  "statSize e fs p =
     (case lookup fs (fsSegs e p) of
        None \<Rightarrow> Inl (SysError (absentCode fs (fsSegs e p)) ''stat'' [p])
      | Some (Dir es) \<Rightarrow> Inr (dirStatSize e)
      | Some (File c) \<Rightarrow> Inr (length c))"

text \<open>\<^verbatim>\<open>fs.readdir(p, { withFileTypes: true })\<close>: the entries, each with its node.\<close>

definition readdir :: "env \<Rightarrow> node \<Rightarrow> string \<Rightarrow> exn + (string \<times> node) list" where
  "readdir e fs p =
     (case lookup fs (fsSegs e p) of
        None \<Rightarrow> Inl (SysError (absentCode fs (fsSegs e p)) ''readdir'' [p])
      | Some (File c) \<Rightarrow> Inl (SysError ''ENOTDIR'' ''readdir'' [p])
      | Some (Dir es) \<Rightarrow> Inr es)"

definition isDirectory :: "node \<Rightarrow> bool" where
  "isDirectory n = (case n of Dir es \<Rightarrow> True | File c \<Rightarrow> False)"

text \<open>Putting a node at a path whose parent directory exists; a new entry goes last.\<close>

fun putAt :: "node \<Rightarrow> string list \<Rightarrow> node \<Rightarrow> string + node" where
  "putAt n [] new = Inl ''EBUSY''"
| "putAt (File c) (s # ss) new = Inl ''ENOTDIR''"
| "putAt (Dir es) (s # ss) new =
     (if ss = [] then Inr (Dir (AList.update s new es))
      else (case map_of es s of
              None \<Rightarrow> Inl ''ENOENT''
            | Some ch \<Rightarrow>
                (case putAt ch ss new of
                   Inl err \<Rightarrow> Inl err
                 | Inr ch' \<Rightarrow> Inr (Dir (AList.update s ch' es)))))"

text \<open>\<^verbatim>\<open>fs.writeFile(p, data)\<close> with the bytes to write; a string written with the encoding
  \<^verbatim>\<open>'utf-8'\<close> is encoded by the caller.\<close>

definition writeFile :: "env \<Rightarrow> node \<Rightarrow> string \<Rightarrow> bytes \<Rightarrow> exn + node" where
  "writeFile e fs p content =
     (case lookup fs (fsSegs e p) of
        Some (Dir es) \<Rightarrow> Inl (SysError ''EISDIR'' ''writeFile'' [p])
      | _ \<Rightarrow> fsResult ''writeFile'' [p] (putAt fs (fsSegs e p) (File content)))"

text \<open>\<^verbatim>\<open>fs.mkdir(p, { recursive: true })\<close>.\<close>

fun newDirs :: "string list \<Rightarrow> node" where
  "newDirs [] = Dir []"
| "newDirs (s # ss) = Dir [(s, newDirs ss)]"

fun mkdirAt :: "node \<Rightarrow> string list \<Rightarrow> string + node" where
  "mkdirAt (Dir es) [] = Inr (Dir es)"
| "mkdirAt (File c) [] = Inl ''EEXIST''"
| "mkdirAt (File c) (s # ss) = Inl ''ENOTDIR''"
| "mkdirAt (Dir es) (s # ss) =
     (case map_of es s of
        None \<Rightarrow> Inr (Dir (AList.update s (newDirs ss) es))
      | Some ch \<Rightarrow>
          (case mkdirAt ch ss of
             Inl err \<Rightarrow> Inl err
           | Inr ch' \<Rightarrow> Inr (Dir (AList.update s ch' es))))"

definition mkdirRecursive :: "env \<Rightarrow> node \<Rightarrow> string \<Rightarrow> exn + node" where
  "mkdirRecursive e fs p = fsResult ''mkdir'' [p] (mkdirAt fs (fsSegs e p))"

text \<open>\<^verbatim>\<open>fs.rm(p, { recursive: true, force: true })\<close>: a missing target is no error, a
  regular file on the way to it is.\<close>

fun removeAt :: "node \<Rightarrow> string list \<Rightarrow> string + node" where
  "removeAt n [] = Inl ''EBUSY''"
| "removeAt (File c) (s # ss) = Inl ''ENOTDIR''"
| "removeAt (Dir es) (s # ss) =
     (if ss = [] then Inr (Dir (AList.delete s es))
      else (case map_of es s of
              None \<Rightarrow> Inr (Dir es)
            | Some ch \<Rightarrow>
                (case removeAt ch ss of
                   Inl err \<Rightarrow> Inl err
                 | Inr ch' \<Rightarrow> Inr (Dir (AList.update s ch' es)))))"

definition rmRecursiveForce :: "env \<Rightarrow> node \<Rightarrow> string \<Rightarrow> exn + node" where
  "rmRecursiveForce e fs p = fsResult ''rm'' [p] (removeAt fs (fsSegs e p))"

text \<open>\<^verbatim>\<open>fs.rename\<close>: the source must exist and must not contain the target; an existing
  target is replaced when it is a file under a file or an empty directory under a
  directory.\<close>

definition rename :: "env \<Rightarrow> node \<Rightarrow> string \<Rightarrow> string \<Rightarrow> exn + node" where
  "rename e fs oldPath newPath =
     (let old = fsSegs e oldPath; new = fsSegs e newPath
      in fsResult ''rename'' [oldPath, newPath]
           (case lookup fs old of
              None \<Rightarrow> Inl (absentCode fs old)
            | Some n \<Rightarrow>
                if old = new then Inr fs
                else if prefix old new then Inl ''EINVAL''
                else
                  (case (lookup fs new, n) of
                     (Some (Dir (x # xs)), _) \<Rightarrow> Inl ''ENOTEMPTY''
                   | (Some (Dir []), File c) \<Rightarrow> Inl ''EISDIR''
                   | (Some (File c'), Dir es) \<Rightarrow> Inl ''ENOTDIR''
                   | _ \<Rightarrow>
                       (case removeAt fs old of
                          Inl code \<Rightarrow> Inl code
                        | Inr fs1 \<Rightarrow> putAt fs1 new n))))"

text \<open>Whether a path names a directory, as \<^verbatim>\<open>stat\<close> tells it.\<close>

definition isDirectoryAt :: "env \<Rightarrow> node \<Rightarrow> string \<Rightarrow> bool" where
  "isDirectoryAt e fs p = (case lookup fs (fsSegs e p) of Some (Dir es) \<Rightarrow> True | _ \<Rightarrow> False)"

section \<open>The tree of a bundle\<close>

datatype treeNode =
    FolderNode string string "treeNode list"
  | FileNode string string string nat bool

text \<open>A folder node has the fields \<^verbatim>\<open>name\<close>, \<^verbatim>\<open>path\<close> and \<^verbatim>\<open>children\<close>, a file node
  \<^verbatim>\<open>name\<close>, \<^verbatim>\<open>path\<close>, \<^verbatim>\<open>fileType\<close>, \<^verbatim>\<open>size\<close> and \<^verbatim>\<open>editable\<close>; the field \<^verbatim>\<open>type\<close> tells the
  two apart.\<close>

fun nodeName :: "treeNode \<Rightarrow> string" where
  "nodeName (FolderNode n p ch) = n"
| "nodeName (FileNode n p t sz ed) = n"

fun nodeType :: "treeNode \<Rightarrow> string" where
  "nodeType (FolderNode n p ch) = ''folder''"
| "nodeType (FileNode n p t sz ed) = ''file''"

text \<open>
  \<^verbatim>\<open>Array.prototype.sort\<close> with a comparison function: the sort is stable, and an element
  goes before the first one that it does not compare greater than.  \<open>localeCompare\<close> is the
  collation of the host, a parameter of the model.
\<close>

fun insertSorted :: "('a \<Rightarrow> 'a \<Rightarrow> int) \<Rightarrow> 'a \<Rightarrow> 'a list \<Rightarrow> 'a list" where
  "insertSorted cmp x [] = [x]"
| "insertSorted cmp x (y # ys) =
     (if cmp x y \<le> 0 then x # y # ys else y # insertSorted cmp x ys)"

definition sortWith :: "('a \<Rightarrow> 'a \<Rightarrow> int) \<Rightarrow> 'a list \<Rightarrow> 'a list" where
  "sortWith cmp xs = foldr (insertSorted cmp) xs []"

definition compareNodes :: "(string \<Rightarrow> string \<Rightarrow> int) \<Rightarrow> treeNode \<Rightarrow> treeNode \<Rightarrow> int" where
  "compareNodes localeCompare a b =
     (if nodeType a \<noteq> nodeType b then (if nodeType a = ''folder'' then - 1 else 1)
      else localeCompare (nodeName a) (nodeName b))"

text \<open>\<open>buildFileTree\<close> on the entries that \<^verbatim>\<open>readdir\<close> lists for the directory; the
  recursive call reads the entries of the subdirectory.  The \<^verbatim>\<open>size\<close> of a file node is
  the one that \<^verbatim>\<open>stat\<close> gives, the number of bytes of the file.\<close>

fun buildFileTree ::
  "(string \<Rightarrow> string \<Rightarrow> int) \<Rightarrow> (string \<times> node) list \<Rightarrow> string \<Rightarrow> treeNode list" where
  "buildFileTree localeCompare entries relativePath =
     sortWith (compareNodes localeCompare)
       (map (\<lambda>(entryName, n).
               let relPath = (if relativePath \<noteq> [] then join [relativePath, entryName]
                              else entryName)
               in case n of
                    Dir sub \<Rightarrow> FolderNode entryName relPath (buildFileTree localeCompare sub relPath)
                  | File c \<Rightarrow>
                      FileNode entryName relPath (getFileType entryName) (length c)
                        (isEditableFile entryName))
          (filter (\<lambda>(entryName, n). \<not> (startsWith entryName ''.'' \<or> entryName = ''node_modules''))
             entries))"

declare buildFileTree.simps [simp del]

section \<open>Replies of the handlers\<close>

datatype 'a reply = Success 'a | Failure string

text \<open>The messages that the specification calls \<open>ProtectedFile\<close>, \<open>NotFound\<close> and
  \<open>AlreadyExists\<close>.\<close>

definition isProtectedFile :: "'a reply \<Rightarrow> bool" where
  "isProtectedFile r =
     (r = Failure ''Cannot delete SKILL.md - it is required''
      \<or> r = Failure ''Cannot rename SKILL.md'' \<or> r = Failure ''Cannot move SKILL.md'')"

definition isAlreadyExists :: "'a reply \<Rightarrow> bool" where
  "isAlreadyExists r =
     (r = Failure ''A file or folder with that name already exists''
      \<or> r = Failure ''A file with that name already exists in the target folder'')"

text \<open>The \<^verbatim>\<open>message\<close> of a caught exception.\<close>

fun message :: "env \<Rightarrow> exn \<Rightarrow> string" where
  "message e (Error m) = m"
| "message e (SysError code call paths) = sysMessage e code call paths"

section \<open>Handlers on the nodes of a bundle\<close>

definition list_skill_files ::
  "(string \<Rightarrow> string \<Rightarrow> int) \<Rightarrow> env \<Rightarrow> node \<Rightarrow> string \<Rightarrow> treeNode list reply" where
  "list_skill_files localeCompare e fs skillPath =
     (case validateSkillPath e skillPath (getSkillsDir e) of
        Inl err \<Rightarrow> Failure ''Failed to list skill files''
      | Inr validatedPath \<Rightarrow>
          let skillDir = dirname validatedPath
          in if \<not> existsSync e fs skillDir then Failure ''Skill directory does not exist''
             else (case readdir e fs skillDir of
                     Inl err \<Rightarrow> Failure ''Failed to list skill files''
                   | Inr entries \<Rightarrow> Success (buildFileTree localeCompare entries [])))"

definition delete_file_or_folder ::
  "env \<Rightarrow> node \<Rightarrow> string \<Rightarrow> string \<Rightarrow> unit reply \<times> node" where
  "delete_file_or_folder e fs skillPath targetPath =
     (let failed = (Failure ''Failed to delete file or folder'', fs)
      in if length skillPath < 1 \<or> length targetPath < 1 then failed
         else
           (case validateSkillPath e skillPath (getSkillsDir e) of
              Inl err \<Rightarrow> failed
            | Inr skillDirPath \<Rightarrow>
                (let skillDir = dirname skillDirPath;
                     fullPath = join [skillDir, targetPath]
                 in (case validateSkillPath e fullPath skillDir of
                       Inl err \<Rightarrow> failed
                     | Inr validatedPath \<Rightarrow>
                         if basename validatedPath = ''SKILL.md''
                         then (Failure ''Cannot delete SKILL.md - it is required'', fs)
                         else if \<not> existsSync e fs validatedPath
                         then (Failure ''File or folder does not exist'', fs)
                         else (case rmRecursiveForce e fs validatedPath of
                                 Inl err \<Rightarrow> failed
                               | Inr fs' \<Rightarrow> (Success (), fs'))))))"

definition rename_file_or_folder ::
  "env \<Rightarrow> node \<Rightarrow> string \<Rightarrow> string \<Rightarrow> string \<Rightarrow> unit reply \<times> node" where
  "rename_file_or_folder e fs skillPath oldPath newName =
     (let failed = (Failure ''Failed to rename file or folder'', fs)
      in if length skillPath < 1 \<or> length oldPath < 1 \<or> length newName < 1 \<or> length newName > 255
         then failed
         else
           (case validateSkillPath e skillPath (getSkillsDir e) of
              Inl err \<Rightarrow> failed
            | Inr skillDirPath \<Rightarrow>
                (let skillDir = dirname skillDirPath;
                     oldFullPath = join [skillDir, oldPath]
                 in (case validateSkillPath e oldFullPath skillDir of
                       Inl err \<Rightarrow> failed
                     | Inr validatedOldPath \<Rightarrow>
                         (case sanitizeFileName newName of
                            Inl err \<Rightarrow> failed
                          | Inr sanitizedNewName \<Rightarrow>
                              if basename validatedOldPath = ''SKILL.md''
                              then (Failure ''Cannot rename SKILL.md'', fs)
                              else
                                (let newFullPath = join [dirname validatedOldPath, sanitizedNewName]
                                 in (case validateSkillPath e newFullPath skillDir of
                                       Inl err \<Rightarrow> failed
                                     | Inr validatedNewPath \<Rightarrow>
                                         if \<not> existsSync e fs validatedOldPath
                                         then (Failure ''File or folder does not exist'', fs)
                                         else if existsSync e fs validatedNewPath
                                         then (Failure ''A file or folder with that name already exists'', fs)
                                         else (case rename e fs validatedOldPath validatedNewPath of
                                                 Inl err \<Rightarrow> failed
                                               | Inr fs' \<Rightarrow> (Success (), fs')))))))))"

definition move_file ::
  "env \<Rightarrow> node \<Rightarrow> string \<Rightarrow> string \<Rightarrow> string \<Rightarrow> unit reply \<times> node" where
  "move_file e fs skillPath oldPath newPath =
     (let failed = (\<lambda>fs'. (Failure ''Failed to move file'', fs'))
      in if length skillPath < 1 \<or> length oldPath < 1 \<or> length newPath < 1 then failed fs
         else
           (case validateSkillPath e skillPath (getSkillsDir e) of
              Inl err \<Rightarrow> failed fs
            | Inr skillDirPath \<Rightarrow>
                (let skillDir = dirname skillDirPath;
                     oldFullPath = join [skillDir, oldPath];
                     newFullPath = join [skillDir, newPath]
                 in (case validateSkillPath e oldFullPath skillDir of
                       Inl err \<Rightarrow> failed fs
                     | Inr validatedOldPath \<Rightarrow>
                         (case validateSkillPath e newFullPath skillDir of
                            Inl err \<Rightarrow> failed fs
                          | Inr validatedNewPath \<Rightarrow>
                              if basename validatedOldPath = ''SKILL.md''
                              then (Failure ''Cannot move SKILL.md'', fs)
                              else if \<not> existsSync e fs validatedOldPath
                              then (Failure ''Source file does not exist'', fs)
                              else if existsSync e fs validatedNewPath
                              then (Failure ''A file with that name already exists in the target folder'', fs)
                              else
                                (case mkdirRecursive e fs (dirname validatedNewPath) of
                                   Inl err \<Rightarrow> failed fs
                                 | Inr fs1 \<Rightarrow>
                                     (case rename e fs1 validatedOldPath validatedNewPath of
                                        Inl err \<Rightarrow> failed fs1
                                      | Inr fs2 \<Rightarrow> (Success (), fs2))))))))"

section \<open>Loading a file\<close>

record fileMetadata =
  metaName :: string
  metaPath :: string
  metaType :: string
  metaSize :: nat
  metaEditable :: bool
  metaTooBig :: "bool option"
  metaError :: "string option"

text \<open>The fields \<^verbatim>\<open>tooBig\<close> and \<^verbatim>\<open>error\<close> of the metadata are present in one reply only.
  A successful reply carries \<^verbatim>\<open>content\<close> and \<^verbatim>\<open>metadata\<close>.\<close>

definition load_file :: "env \<Rightarrow> node \<Rightarrow> string \<Rightarrow> (string \<times> fileMetadata) reply" where
  "load_file e fs filePath =
     (let failed = Failure ''Failed to load file''
      in if length filePath < 1 then failed
         else
           (case validateSkillPath e filePath (getSkillsDir e) of
              Inl err \<Rightarrow> failed
            | Inr validatedPath \<Rightarrow>
               if \<not> existsSync e fs validatedPath then Failure ''File does not exist''
               else
                 (case statSize e fs validatedPath of
                    Inl err \<Rightarrow> failed
                  | Inr statsSize \<Rightarrow>
                      if statsSize > MAX_FILE_SIZE
                      then Success ([],
                             \<lparr>metaName = basename validatedPath, metaPath = filePath,
                              metaType = getFileType filePath, metaSize = statsSize,
                              metaEditable = False, metaTooBig = Some True,
                              metaError = Some ''File is too large to edit (max 10MB)''\<rparr>)
                      else
                        (let isEditable = isEditableFile validatedPath
                         in if isEditable
                           then (case readFile e fs validatedPath of
                                   Inl err \<Rightarrow> failed
                                 | Inr content \<Rightarrow>
                                     Success (content,
                                       \<lparr>metaName = basename validatedPath, metaPath = filePath,
                                        metaType = getFileType filePath, metaSize = statsSize,
                                        metaEditable = True, metaTooBig = None,
                                        metaError = None\<rparr>))
                           else Success ([],
                                  \<lparr>metaName = basename validatedPath, metaPath = filePath,
                                   metaType = getFileType filePath, metaSize = statsSize,
                                   metaEditable = False, metaTooBig = None,
                                   metaError = None\<rparr>)))))"

section \<open>Uploading files\<close>

record uploadedFile =
  fileName :: string
  fileData :: bytes

text \<open>One round of the loop over the files: the new state of the disk, and the name pushed
  to \<^verbatim>\<open>uploadedFiles\<close> or the exception that the round caught.\<close>

definition uploadOne ::
  "env \<Rightarrow> string \<Rightarrow> string \<Rightarrow> node \<Rightarrow> uploadedFile \<Rightarrow> node \<times> (exn + string)" where
  "uploadOne e validatedTargetPath skillDir fs file =
     (case sanitizeRelativePath (fileName file) of
        Inl err \<Rightarrow> (fs, Inl err)
      | Inr sanitizedRelative \<Rightarrow>
          (let destinationPath = join [validatedTargetPath, sanitizedRelative]
           in case validateSkillPath e destinationPath skillDir of
               Inl err \<Rightarrow> (fs, Inl err)
             | Inr validatedDestination \<Rightarrow>
                 (case mkdirRecursive e fs (dirname validatedDestination) of
                    Inl err \<Rightarrow> (fs, Inl err)
                  | Inr fs1 \<Rightarrow>
                      (case writeFile e fs1 validatedDestination (fileData file) of
                         Inl err \<Rightarrow> (fs1, Inl err)
                       | Inr fs2 \<Rightarrow> (fs2, Inr (joinSlash (splitSlash sanitizedRelative)))))))"

fun uploadLoop ::
  "env \<Rightarrow> string \<Rightarrow> string \<Rightarrow> node \<Rightarrow> string list \<Rightarrow> uploadedFile list \<Rightarrow> node \<times> string list"
  where
  "uploadLoop e validatedTargetPath skillDir fs uploadedFiles [] = (fs, uploadedFiles)"
| "uploadLoop e validatedTargetPath skillDir fs uploadedFiles (file # files) =
     (case uploadOne e validatedTargetPath skillDir fs file of
        (fs', Inl fileError) \<Rightarrow> uploadLoop e validatedTargetPath skillDir fs' uploadedFiles files
      | (fs', Inr uploaded) \<Rightarrow>
          uploadLoop e validatedTargetPath skillDir fs' (uploadedFiles @ [uploaded]) files)"

text \<open>A successful reply carries \<^verbatim>\<open>uploadedFiles\<close> and \<^verbatim>\<open>count\<close>.\<close>

definition upload_files ::
  "env \<Rightarrow> node \<Rightarrow> string \<Rightarrow> uploadedFile list \<Rightarrow> string \<Rightarrow> (string list \<times> nat) reply \<times> node"
  where
  "upload_files e fs skillPath files targetFolder =
     (let failed = (\<lambda>fs'. (Failure ''Failed to upload files'', fs'))
      in (case validateSkillPath e skillPath (getSkillsDir e) of
            Inl err \<Rightarrow> failed fs
          | Inr skillDirPath \<Rightarrow>
              (let skillDir = dirname skillDirPath;
                   targetPath = (if targetFolder \<noteq> [] then join [skillDir, targetFolder] else skillDir)
               in (case validateSkillPath e targetPath skillDir of
                     Inl err \<Rightarrow> failed fs
                   | Inr validatedTargetPath \<Rightarrow>
                       (case mkdirRecursive e fs validatedTargetPath of
                          Inl err \<Rightarrow> failed fs
                        | Inr fs1 \<Rightarrow>
                            (case uploadLoop e validatedTargetPath skillDir fs1 [] files of
                               (fs2, uploadedFiles) \<Rightarrow>
                                 (Success (uploadedFiles, length uploadedFiles), fs2)))))))"

section \<open>Loading and importing a bundle\<close>

record loadedSkill =
  skillContent :: string
  skillResolvedPath :: string
  imported :: bool
  skillName :: "string option"

text \<open>
  The reply of \<^verbatim>\<open>load-skill\<close> has the fields \<^verbatim>\<open>content\<close> and \<^verbatim>\<open>path\<close>, and after an import
  \<^verbatim>\<open>imported: true\<close> and \<^verbatim>\<open>skillName\<close>.  The loop that looks for a free name may not
  return, so its result is an option.
\<close>

partial_function (option) findFreeSlot ::
  "env \<Rightarrow> node \<Rightarrow> string \<Rightarrow> string \<Rightarrow> string \<Rightarrow> string \<Rightarrow> nat \<Rightarrow> (string \<times> string) option"
  where
  "findFreeSlot e fs skillsDir sanitizedName candidateName targetDir suffix' =
     (if existsSync e fs (join [targetDir, ''SKILL.md''])
      then findFreeSlot e fs skillsDir sanitizedName
             (sanitizedName @ ''-'' @ showNat suffix')
             (join [skillsDir, sanitizedName @ ''-'' @ showNat suffix'])
             (suffix' + 1)
      else Some (candidateName, targetDir))"

declare findFreeSlot.simps [code]

definition importedName :: "env \<Rightarrow> string \<Rightarrow> exn + string" where
  "importedName e resolvedPath =
     (case sanitizeSkillName (basename (dirname resolvedPath)) of
        Inr sanitizedName \<Rightarrow> Inr sanitizedName
      | Inl nameError \<Rightarrow> sanitizeSkillName (''imported-skill-'' @ showNat (now e)))"

definition importSkill ::
  "env \<Rightarrow> node \<Rightarrow> string \<Rightarrow> string \<Rightarrow> ((exn + loadedSkill) \<times> node) option" where
  "importSkill e fs skillsDir skillPath =
     (let resolvedPath = resolve (cwd e) skillPath
      in if \<not> existsSync e fs resolvedPath then Some (Inl (Error ''Skill file does not exist''), fs)
         else if toLowerCase (basename resolvedPath) \<noteq> ''skill.md''
         then Some (Inl (Error ''Only SKILL.md files can be imported''), fs)
         else
           (case readFile e fs resolvedPath of
              Inl err \<Rightarrow> Some (Inl err, fs)
            | Inr content \<Rightarrow>
               (case importedName e resolvedPath of
                  Inl err \<Rightarrow> Some (Inl err, fs)
                | Inr sanitizedName \<Rightarrow>
                    (case findFreeSlot e fs skillsDir sanitizedName sanitizedName
                            (join [skillsDir, sanitizedName]) 1 of
                       None \<Rightarrow> None
                     | Some (candidateName, targetDir) \<Rightarrow>
                         (let targetPath = join [targetDir, ''SKILL.md'']
                          in case mkdirRecursive e fs targetDir of
                              Inl err \<Rightarrow> Some (Inl err, fs)
                            | Inr fs1 \<Rightarrow>
                                (case writeFile e fs1 targetPath (utf8Encode content) of
                                   Inl err \<Rightarrow> Some (Inl err, fs1)
                                 | Inr fs2 \<Rightarrow>
                                     Some (Inr \<lparr>skillContent = content,
                                                skillResolvedPath = targetPath,
                                                imported = True,
                                                skillName = Some candidateName\<rparr>, fs2)))))))"

definition load_skill :: "env \<Rightarrow> node \<Rightarrow> string \<Rightarrow> (loadedSkill reply \<times> node) option" where
  "load_skill e fs skillPath =
     (let skillsDir = getSkillsDir e;
          caught = (\<lambda>err. Failure (if message e err = [] then ''Failed to load skill'' else message e err))
      in (case mkdirRecursive e fs skillsDir of
           Inl err \<Rightarrow> Some (caught err, fs)
         | Inr fs0 \<Rightarrow>
             (case validateSkillPath e skillPath skillsDir of
                Inr validatedPath \<Rightarrow>
                  if \<not> existsSync e fs0 validatedPath
                  then Some (caught (Error ''Skill file does not exist''), fs0)
                  else (case readFile e fs0 validatedPath of
                          Inl err \<Rightarrow> Some (caught err, fs0)
                        | Inr content \<Rightarrow>
                            Some (Success \<lparr>skillContent = content,
                                           skillResolvedPath = validatedPath,
                                           imported = False, skillName = None\<rparr>, fs0))
              | Inl validationError \<Rightarrow>
                  if message e validationError \<noteq> ''Invalid path - access denied''
                  then Some (caught validationError, fs0)
                  else (case importSkill e fs0 skillsDir skillPath of
                          None \<Rightarrow> None
                        | Some (Inl err, fs') \<Rightarrow> Some (caught err, fs')
                        | Some (Inr loaded, fs') \<Rightarrow> Some (Success loaded, fs')))))"

section \<open>Listing the bundles\<close>

text \<open>
  The description of a bundle is what
  \<^verbatim>\<open>content.match(/^description:\s*(.+?)(?:\n|$)/m)\<close> captures.  With the flag \<^verbatim>\<open>m\<close> the
  pattern is tried at the start of every line, from the first on.  After the key, \<^verbatim>\<open>\s*\<close>
  takes all the white space (line breaks included); the group is then the rest of that line.
  When the white space runs to the end of the text the matcher backtracks, and the group is
  the last character of the white space that is not a line terminator.
\<close>

definition isLineTerminator :: "char \<Rightarrow> bool" where
  "isLineTerminator c = (codeOf c = 10 \<or> codeOf c = 13)"

definition isWhiteSpace :: "char \<Rightarrow> bool" where
  "isWhiteSpace c = (codeOf c \<in> set [9, 10, 11, 12, 13, 32, 160])"

definition trim :: "string \<Rightarrow> string" where
  "trim s = rev (dropWhile isWhiteSpace (rev (dropWhile isWhiteSpace s)))"

definition descriptionAt :: "string \<Rightarrow> string option" where
  "descriptionAt s =
     (if \<not> startsWith s ''description:'' then None
      else
        let rest = drop 12 s;
            spaces = takeWhile isWhiteSpace rest;
            after = dropWhile isWhiteSpace rest
        in if after \<noteq> [] then Some (takeWhile (\<lambda>c. \<not> isLineTerminator c) after)
           else (case filter (\<lambda>c. \<not> isLineTerminator c) (rev spaces) of
                   [] \<Rightarrow> None
                 | c # cs \<Rightarrow> Some [c]))"

fun matchDescription :: "bool \<Rightarrow> string \<Rightarrow> string option" where
  "matchDescription atLineStart [] = None"
| "matchDescription atLineStart (c # cs) =
     (case (if atLineStart then descriptionAt (c # cs) else None) of
        Some g \<Rightarrow> Some g
      | None \<Rightarrow> matchDescription (isLineTerminator c) cs)"

definition extractDescription :: "string \<Rightarrow> string" where
  "extractDescription content =
     (let descMatch = matchDescription True content;
          description = (case descMatch of Some g \<Rightarrow> trim g | None \<Rightarrow> ''No description'')
      in take 200 description)"

record listedSkill =
  listedName :: string
  listedPath :: string
  listedDescription :: string

definition listOne :: "env \<Rightarrow> node \<Rightarrow> string \<Rightarrow> string \<Rightarrow> listedSkill option" where
  "listOne e fs skillsDir entryName =
     (let skillPath = join [skillsDir, entryName, ''SKILL.md'']
      in (case sanitizeSkillName entryName of
           Inl err \<Rightarrow> None
         | Inr sanitized \<Rightarrow>
             (case validateSkillPath e skillPath skillsDir of
                Inl err \<Rightarrow> None
              | Inr validated \<Rightarrow>
                  (case readFile e fs skillPath of
                     Inl err \<Rightarrow> None
                   | Inr content \<Rightarrow>
                       Some \<lparr>listedName = entryName, listedPath = skillPath,
                             listedDescription = extractDescription content\<rparr>))))"

definition list_skills :: "env \<Rightarrow> node \<Rightarrow> listedSkill list \<times> node" where
  "list_skills e fs =
     (let skillsDir = getSkillsDir e
      in (case mkdirRecursive e fs skillsDir of
           Inl err \<Rightarrow> ([], fs)
         | Inr fs1 \<Rightarrow>
             (case readdir e fs1 skillsDir of
                Inl err \<Rightarrow> ([], fs1)
              | Inr entries \<Rightarrow>
                  (List.map_filter (\<lambda>(entryName, n). listOne e fs1 skillsDir entryName)
                     (filter (\<lambda>(entryName, n). isDirectory n) entries), fs1))))"

section \<open>Normal forms of paths\<close>

text \<open>
  A segment is clean when \<open>normalizeString\<close> keeps it as it is; an absolute path in normal
  form is a slash followed by clean segments that slashes separate (no segment at all for the
  root directory).
\<close>

definition cleanSeg :: "string \<Rightarrow> bool" where
  "cleanSeg s = (s \<noteq> [] \<and> s \<noteq> ''.'' \<and> s \<noteq> ''..'' \<and> CHR ''/'' \<notin> set s)"

definition absPath :: "string list \<Rightarrow> string" where
  "absPath segs = CHR ''/'' # joinSlash segs"

text \<open>The segments that \<open>validateSkillPath\<close> resolves a requested path to, under a base
  directory with the segments \<open>bs\<close>.\<close>

definition resolvedSegs :: "string list \<Rightarrow> string \<Rightarrow> string list" where
  "resolvedSegs bs q =
     normalizeString False (if isAbsolute q then [] else rev bs) (splitSlash q)"

section \<open>The order of a tree\<close>

text \<open>
  What the specification says of the children of a folder: the folders come before the
  files, and the names of the folders, and the names of the files, ascend in the collation.
  A tree is ordered when this holds of the children of each of its folders.  The comparison
  function given to \<^verbatim>\<open>sort\<close> must be consistent: any two elements compare one way or the
  other, and transitively so.
\<close>

definition consistentComparator :: "('a \<Rightarrow> 'a \<Rightarrow> int) \<Rightarrow> bool" where
  "consistentComparator cmp =
     ((\<forall>a b. cmp a b \<le> 0 \<or> cmp b a \<le> 0)
      \<and> (\<forall>a b c. cmp a b \<le> 0 \<and> cmp b c \<le> 0 \<longrightarrow> cmp a c \<le> 0))"

fun isFolder :: "treeNode \<Rightarrow> bool" where
  "isFolder (FolderNode n p ch) = True"
| "isFolder (FileNode n p t sz ed) = False"

definition foldersFirst :: "treeNode list \<Rightarrow> bool" where
  "foldersFirst ns = list_all (\<lambda>n. \<not> isFolder n) (dropWhile isFolder ns)"

definition sortedByName :: "(string \<Rightarrow> string \<Rightarrow> int) \<Rightarrow> treeNode list \<Rightarrow> bool" where
  "sortedByName localeCompare ns =
     sorted_wrt (\<lambda>a b. localeCompare (nodeName a) (nodeName b) \<le> 0) ns"

definition levelOrdered :: "(string \<Rightarrow> string \<Rightarrow> int) \<Rightarrow> treeNode list \<Rightarrow> bool" where
  "levelOrdered localeCompare ns =
     (foldersFirst ns
      \<and> sortedByName localeCompare (filter isFolder ns)
      \<and> sortedByName localeCompare (filter (\<lambda>n. \<not> isFolder n) ns))"

fun treeOrdered :: "(string \<Rightarrow> string \<Rightarrow> int) \<Rightarrow> treeNode \<Rightarrow> bool" where
  "treeOrdered localeCompare (FolderNode n p ch) =
     (levelOrdered localeCompare ch \<and> list_all (treeOrdered localeCompare) ch)"
| "treeOrdered localeCompare (FileNode n p t sz ed) = True"

section \<open>Plain file names\<close>

text \<open>A name that \<open>sanitizeRelativePath\<close> leaves as it is: one segment of allowed
  characters, at most 255 of them, other than \<^verbatim>\<open>.\<close> and \<^verbatim>\<open>..\<close>.\<close>

definition plainFileName :: "string \<Rightarrow> bool" where
  "plainFileName n =
     (n \<noteq> [] \<and> list_all isFileNameChar n \<and> length n \<le> 255 \<and> n \<noteq> ''.'' \<and> n \<noteq> ''..'')"

section \<open>The names that an import tries\<close>

text \<open>The candidates of the loop in \<^verbatim>\<open>load-skill\<close>: the derived name, then the name with
  \<^verbatim>\<open>-1\<close>, \<^verbatim>\<open>-2\<close> and so on.  A candidate is taken when the library has a bundle of
  that name with a manifest.\<close>

definition slotName :: "string \<Rightarrow> nat \<Rightarrow> string" where
  "slotName sanitizedName j = (if j = 0 then sanitizedName else sanitizedName @ ''-'' @ showNat j)"

definition slotTaken :: "env \<Rightarrow> node \<Rightarrow> string \<Rightarrow> nat \<Rightarrow> bool" where
  "slotTaken e fs sanitizedName j =
     existsSync e fs (join [join [getSkillsDir e, slotName sanitizedName j], ''SKILL.md''])"

section \<open>A sample installation\<close>

text \<open>
  An environment and a disk for evaluating the handlers: the library is \<^verbatim>\<open>/u/skills\<close> with
  one bundle \<^verbatim>\<open>demo\<close>, and two manifests lie outside the library, each in a directory
  named \<^verbatim>\<open>widget\<close>.  The text of a system error is, in this environment, the error code
  and the name of the function.
\<close>

definition sampleEnv :: env where
  "sampleEnv = \<lparr>userData = ''/u'', cwd = ''/w'', now = 1712, dirStatSize = 4096,
                 sysMessage = (\<lambda>code call paths. code @ '': '' @ call)\<rparr>"

definition sampleDisk :: node where
  "sampleDisk =
     Dir [(''u'', Dir [(''skills'', Dir [(''demo'',
            Dir [(''SKILL.md'', File ''hello''), (''b.txt'', File ''B''), (''a.txt'', File ''A''),
                 (''sub'', Dir [(''SKILL.md'', File ''nested'')]),
                 (''skill.md'', File ''lower'')])])]),
          (''ext1'', Dir [(''widget'', Dir [(''SKILL.md'', File ''one'')])]),
          (''ext2'', Dir [(''widget'', Dir [(''SKILL.md'', File ''two'')])])]"

text \<open>A disk with files of 10 MiB and of one byte more.  The file \<^verbatim>\<open>accent.md\<close> starts
  with the two bytes of U+00E9: it has 10485761 bytes and 10485760 characters.\<close>

definition bigDisk :: node where
  "bigDisk = Dir [(''u'', Dir [(''skills'', Dir [(''demo'',
       Dir [(''SKILL.md'', File ''hello''), (''big.bin'', File (replicate 10485761 (CHR ''x''))),
            (''big.md'', File (replicate 10485761 (CHR ''x''))),
            (''exact.md'', File (replicate 10485760 (CHR ''x''))),
            (''accent.md'',
               File (char_of (195 :: nat) # char_of (169 :: nat) # replicate 10485759 (CHR ''x'')))])])])]"

text \<open>A collation for evaluating: the order of the code units.\<close>

definition compareCodeUnits :: "string \<Rightarrow> string \<Rightarrow> int" where
  "compareCodeUnits a b = (if a < b then - 1 else if a = b then 0 else 1)"

text \<open>The sample disk after the import of the first external manifest, and after the
  import of the second.\<close>

definition diskAfterFirstImport :: node where
  "diskAfterFirstImport =
     Dir [(''u'', Dir [(''skills'', Dir [(''demo'',
            Dir [(''SKILL.md'', File ''hello''), (''b.txt'', File ''B''), (''a.txt'', File ''A''),
                 (''sub'', Dir [(''SKILL.md'', File ''nested'')]),
                 (''skill.md'', File ''lower'')]),
            (''widget'', Dir [(''SKILL.md'', File ''one'')])])]),
          (''ext1'', Dir [(''widget'', Dir [(''SKILL.md'', File ''one'')])]),
          (''ext2'', Dir [(''widget'', Dir [(''SKILL.md'', File ''two'')])])]"

definition diskAfterSecondImport :: node where
  "diskAfterSecondImport =
     Dir [(''u'', Dir [(''skills'', Dir [(''demo'',
            Dir [(''SKILL.md'', File ''hello''), (''b.txt'', File ''B''), (''a.txt'', File ''A''),
                 (''sub'', Dir [(''SKILL.md'', File ''nested'')]),
                 (''skill.md'', File ''lower'')]),
            (''widget'', Dir [(''SKILL.md'', File ''one'')]),
            (''widget-1'', Dir [(''SKILL.md'', File ''two'')])])]),
          (''ext1'', Dir [(''widget'', Dir [(''SKILL.md'', File ''one'')])]),
          (''ext2'', Dir [(''widget'', Dir [(''SKILL.md'', File ''two'')])])]"

text \<open>Two libraries in which the bundle \<^verbatim>\<open>widget\<close> has a manifest: in the first one
  \<^verbatim>\<open>widget-1\<close> is a folder without a manifest, in the second one a regular file.\<close>

definition libraryWithFolder :: node where
  "libraryWithFolder =
     Dir [(''u'', Dir [(''skills'', Dir [(''widget'', Dir [(''SKILL.md'', File ''one'')]),
                                         (''widget-1'', Dir [(''notes.txt'', File ''n'')])])]),
          (''ext2'', Dir [(''widget'', Dir [(''SKILL.md'', File ''two'')])])]"

definition libraryWithFile :: node where
  "libraryWithFile =
     Dir [(''u'', Dir [(''skills'', Dir [(''widget'', Dir [(''SKILL.md'', File ''one'')]),
                                         (''widget-1'', File ''x'')])]),
          (''ext2'', Dir [(''widget'', Dir [(''SKILL.md'', File ''two'')])])]"

section \<open>Facts on the file system calls\<close>

lemma fsResult_Inr [simp]: "fsResult call paths (Inr x) = Inr x"
  by (simp add: fsResult_def)

lemma fsResult_Inl [simp]: "fsResult call paths (Inl code) = Inl (SysError code call paths)"
  by (simp add: fsResult_def)

lemma fsResult_eq_Inr [simp]: "fsResult call paths r = Inr x \<longleftrightarrow> r = Inr x"
  by (cases r) simp_all

lemma fsResult_eq_Inl:
  "fsResult call paths r = Inl err \<longleftrightarrow> (\<exists>code. r = Inl code \<and> err = SysError code call paths)"
  by (cases r) auto

lemma codeOf_less: "codeOf c < 256"
proof -
  have "codeOf c mod 256 = codeOf c" by (simp add: codeOf_def)
  then show ?thesis by (metis mod_less_divisor zero_less_numeral)
qed

lemma codeOf_char_of: "n < 256 \<Longrightarrow> codeOf (char_of n) = n"
  by (simp add: codeOf_def)

lemma char_of_codeOf: "char_of (codeOf c) = c"
  by (simp add: codeOf_def)

lemma utf8Decode_ascii_Cons: "codeOf b < 128 \<Longrightarrow> utf8Decode (b # bs) = b # utf8Decode bs"
  by (cases bs) simp_all

lemma utf8Decode_two:
  assumes "128 \<le> codeOf c"
  shows "utf8Decode (char_of (192 + codeOf c div 64) # char_of (128 + codeOf c mod 64) # bs)
         = c # utf8Decode bs"
proof -
  define n where "n = codeOf c"
  have lt: "n < 256" unfolding n_def by (rule codeOf_less)
  have ge: "128 \<le> n" using assms by (simp add: n_def)
  have "128 div 64 \<le> n div 64" using ge by (rule div_le_mono)
  then have lo: "2 \<le> n div 64" by simp
  have "n < 4 * 64" using lt by simp
  then have hi: "n div 64 < 4" by (rule less_mult_imp_div_less)
  have d: "n div 64 = 2 \<or> n div 64 = 3" using lo hi by linarith
  then have a: "192 + n div 64 < 256" by auto
  have b: "128 + n mod 64 < 256" by simp
  have c1: "codeOf (char_of (192 + n div 64)) = 192 + n div 64"
    using a by (rule codeOf_char_of)
  have c2: "codeOf (char_of (128 + n mod 64)) = 128 + n mod 64"
    using b by (rule codeOf_char_of)
  have k: "isContinuation (char_of (128 + n mod 64))"
    by (simp add: isContinuation_def c2)
  have l: "codeOf (char_of (192 + n div 64)) = 194 \<or> codeOf (char_of (192 + n div 64)) = 195"
    using d by (auto simp: c1)
  have nl: "\<not> codeOf (char_of (192 + n div 64)) < 128"
    by (simp add: c1)
  have "(codeOf (char_of (192 + n div 64)) - 192) * 64 + (codeOf (char_of (128 + n mod 64)) - 128)
        = n div 64 * 64 + n mod 64"
    by (simp add: c1 c2)
  also have "\<dots> = n" by simp
  finally have v: "char_of ((codeOf (char_of (192 + n div 64)) - 192) * 64
                     + (codeOf (char_of (128 + n mod 64)) - 128)) = c"
    by (simp add: n_def char_of_codeOf)
  have "utf8Decode (char_of (192 + n div 64) # char_of (128 + n mod 64) # bs) = c # utf8Decode bs"
    using k l nl v by (simp del: char_of_def)
  then show ?thesis by (simp add: n_def)
qed

lemma utf8Decode_encode_Cons: "utf8Decode (utf8EncodeChar c @ bs) = c # utf8Decode bs"
proof (cases "codeOf c < 128")
  case True
  then show ?thesis by (simp add: utf8EncodeChar_def utf8Decode_ascii_Cons)
next
  case False
  then have "128 \<le> codeOf c" by simp
  from utf8Decode_two [OF this, of bs] False show ?thesis
    by (simp add: utf8EncodeChar_def)
qed

lemma utf8Decode_utf8Encode: "utf8Decode (utf8Encode s) = s"
  by (induction s) (simp_all add: utf8Encode_def utf8Decode_encode_Cons)

lemma utf8Decode_ascii: "list_all (\<lambda>b. codeOf b < 128) bs \<Longrightarrow> utf8Decode bs = bs"
  by (induction bs) (simp_all add: utf8Decode_ascii_Cons)

lemma utf8Decode_replicate: "codeOf b < 128 \<Longrightarrow> utf8Decode (replicate n b) = replicate n b"
  by (rule utf8Decode_ascii) (simp add: list_all_iff)

lemma utf8Encode_ascii: "list_all (\<lambda>b. codeOf b < 128) s \<Longrightarrow> utf8Encode s = s"
  by (induction s) (simp_all add: utf8Encode_def utf8EncodeChar_def)

lemma length_utf8Encode:
  "length (utf8Encode s) = length s + length (filter (\<lambda>c. 128 \<le> codeOf c) s)"
  by (induction s) (simp_all add: utf8Encode_def utf8EncodeChar_def)

section \<open>Facts about the sanitizers of names\<close>

lemma toLowerChar_skillNameChar: "isSkillNameChar c \<Longrightarrow> toLowerChar c = c"
  by (auto simp: isSkillNameChar_def toLowerChar_def isLower_def isUpper_def isDigit_def codeOf_def)

lemma toLowerCase_skillName: "list_all isSkillNameChar s \<Longrightarrow> toLowerCase s = s"
  by (induction s) (simp_all add: toLowerCase_def toLowerChar_skillNameChar)

lemma filter_id_list_all: "list_all P s \<Longrightarrow> filter P s = s"
  by (induction s) simp_all

lemma sanitizeSkillName_Inr:
  "sanitizeSkillName x = Inr y \<Longrightarrow>
     y = filter isSkillNameChar (toLowerCase x) \<and> y \<noteq> [] \<and> length y \<le> 255 \<and> y \<noteq> ''skill''"
  by (auto simp: sanitizeSkillName_def Let_def split: if_splits)

lemma sanitizeSkillName_fixed:
  assumes a: "sanitizeSkillName x = Inr y"
  shows "sanitizeSkillName y = Inr y"
proof -
  from sanitizeSkillName_Inr [OF a]
  have y: "y = filter isSkillNameChar (toLowerCase x)" "y \<noteq> []" "length y \<le> 255" "y \<noteq> ''skill''"
    by auto
  have "list_all isSkillNameChar y"
    unfolding y(1) by (simp add: list_all_iff)
  then have "filter isSkillNameChar (toLowerCase y) = y"
    by (simp add: toLowerCase_skillName filter_id_list_all)
  then show ?thesis
    using y(2-4) unfolding sanitizeSkillName_def Let_def by auto
qed

section \<open>Facts about splitting, joining and normalising paths\<close>

lemma splitWhen_nonempty [simp]: "splitWhen sep s \<noteq> []"
  by (induction s) (auto split: list.splits)

lemma splitWhen_append_sep:
  "sep c \<Longrightarrow> splitWhen sep (a @ c # b) = splitWhen sep a @ splitWhen sep b"
proof (induction a)
  case Nil
  then show ?case by simp
next
  case (Cons x a)
  then show ?case
    by (cases "splitWhen sep a") (auto split: list.splits)
qed

lemma splitWhen_no_sep: "\<forall>c\<in>set s. \<not> sep c \<Longrightarrow> splitWhen sep s = [s]"
  by (induction s) auto

lemma splitWhen_pieces_all: "\<forall>x\<in>set (splitWhen sep s). \<forall>c\<in>set x. \<not> sep c"
proof (induction s)
  case Nil
  then show ?case by simp
next
  case (Cons a s)
  show ?case
  proof (cases "splitWhen sep s")
    case Nil
    then show ?thesis by simp
  next
    case (Cons w ws)
    with Cons.IH have "\<forall>c\<in>set w. \<not> sep c" "\<forall>x\<in>set ws. \<forall>c\<in>set x. \<not> sep c"
      by simp_all
    with Cons show ?thesis by auto
  qed
qed

lemma splitWhen_pieces: "x \<in> set (splitWhen sep s) \<Longrightarrow> \<forall>c\<in>set x. \<not> sep c"
  using splitWhen_pieces_all by blast

lemma splitSlash_append:
  "splitSlash (a @ CHR ''/'' # b) = splitSlash a @ splitSlash b"
  by (simp add: splitSlash_def splitWhen_append_sep)

lemma splitSlash_single: "CHR ''/'' \<notin> set s \<Longrightarrow> splitSlash s = [s]"
  using splitWhen_no_sep [of s "\<lambda>c. c = CHR ''/''"] by (auto simp: splitSlash_def)

lemma splitSlash_pieces: "x \<in> set (splitSlash s) \<Longrightarrow> CHR ''/'' \<notin> set x"
  using splitWhen_pieces [of x "\<lambda>c. c = CHR ''/''" s] by (auto simp: splitSlash_def)

lemma joinSlash_Cons:
  "segs \<noteq> [] \<Longrightarrow> joinSlash (s # segs) = s @ CHR ''/'' # joinSlash segs"
  by (cases segs) (simp_all add: joinSlash_def)

lemma joinSlash_Nil [simp]: "joinSlash [] = []"
  by (simp add: joinSlash_def)

lemma joinSlash_single [simp]: "joinSlash [s] = s"
  by (simp add: joinSlash_def)

lemma joinSlash_append:
  "xs \<noteq> [] \<Longrightarrow> ys \<noteq> [] \<Longrightarrow> joinSlash (xs @ ys) = joinSlash xs @ CHR ''/'' # joinSlash ys"
proof (induction xs)
  case Nil
  then show ?case by simp
next
  case (Cons x xs)
  show ?case
  proof (cases "xs = []")
    case True
    with Cons.prems show ?thesis by (simp add: joinSlash_Cons)
  next
    case False
    with Cons show ?thesis by (simp add: joinSlash_Cons)
  qed
qed

lemma splitSlash_joinSlash:
  "segs \<noteq> [] \<Longrightarrow> \<forall>s\<in>set segs. CHR ''/'' \<notin> set s \<Longrightarrow> splitSlash (joinSlash segs) = segs"
proof (induction segs)
  case Nil
  then show ?case by simp
next
  case (Cons s segs)
  show ?case
  proof (cases "segs = []")
    case True
    with Cons.prems show ?thesis by (simp add: splitSlash_single)
  next
    case False
    with Cons show ?thesis
      by (simp add: joinSlash_Cons splitSlash_append splitSlash_single)
  qed
qed

lemma joinSlash_eq_Nil: "\<forall>s\<in>set segs. s \<noteq> [] \<Longrightarrow> joinSlash segs = [] \<longleftrightarrow> segs = []"
  by (cases segs; cases "tl segs") (auto simp: joinSlash_def)

lemma normalizeString_append:
  "normalizeString a res (xs @ ys) = normalizeString a (rev (normalizeString a res xs)) ys"
  by (induction a res xs rule: normalizeString.induct) (auto split: list.splits)

lemma normalizeString_clean:
  "list_all cleanSeg xs \<Longrightarrow> normalizeString a res xs = rev res @ xs"
  by (induction xs arbitrary: res) (auto simp: cleanSeg_def)

lemma normalizeString_keeps_clean:
  "list_all cleanSeg res \<Longrightarrow> \<forall>x\<in>set xs. CHR ''/'' \<notin> set x \<Longrightarrow>
     list_all cleanSeg (normalizeString False res xs)"
proof (induction xs arbitrary: res)
  case Nil
  then show ?case by (simp add: list_all_iff)
next
  case (Cons x xs)
  then show ?case
    by (cases res) (auto simp: cleanSeg_def)
qed

lemma normalizeString_twice:
  "\<forall>t\<in>set acc. t \<noteq> [] \<and> t \<noteq> ''.'' \<Longrightarrow>
     normalizeString False res (normalizeString True acc xs) = normalizeString False res (rev acc @ xs)"
proof (induction xs arbitrary: acc)
  case Nil
  then show ?case by simp
next
  case (Cons x xs)
  show ?case
  proof (cases "x = [] \<or> x = ''.''")
    case True
    then have "normalizeString False res (rev acc @ x # xs) = normalizeString False res (rev acc @ xs)"
      by (auto simp: normalizeString_append)
    with True Cons show ?thesis by auto
  next
    case skip: False
    show ?thesis
    proof (cases "x = ''..''")
      case False
      with skip have "normalizeString True acc (x # xs) = normalizeString True (x # acc) xs"
        by simp
      moreover have "\<forall>t\<in>set (x # acc). t \<noteq> [] \<and> t \<noteq> ''.''"
        using skip Cons.prems by simp
      ultimately show ?thesis using Cons.IH [of "x # acc"] by simp
    next
      case dd: True
      show ?thesis
      proof (cases acc)
        case Nil
        with dd Cons.IH [of "[''..'']"] show ?thesis by simp
      next
        case (Cons t ts)
        show ?thesis
        proof (cases "t = ''..''")
          case True
          have "\<forall>t\<in>set (''..'' # acc). t \<noteq> [] \<and> t \<noteq> ''.''"
            using Cons.prems \<open>\<forall>t\<in>set acc. t \<noteq> [] \<and> t \<noteq> ''.''\<close> by simp
          with dd Cons True Cons.IH [of "''..'' # acc"] show ?thesis by simp
        next
          case False
          have t: "t \<noteq> []" "t \<noteq> ''.''"
            using \<open>\<forall>t\<in>set acc. t \<noteq> [] \<and> t \<noteq> ''.''\<close> Cons by auto
          have ts: "\<forall>t\<in>set ts. t \<noteq> [] \<and> t \<noteq> ''.''"
            using \<open>\<forall>t\<in>set acc. t \<noteq> [] \<and> t \<noteq> ''.''\<close> Cons by auto
          have "normalizeString False res (rev acc @ x # xs)
              = normalizeString False (rev (normalizeString False res (rev ts))) (t # ''..'' # xs)"
            using Cons dd by (simp add: normalizeString_append)
          also have "\<dots> = normalizeString False (rev (normalizeString False res (rev ts))) xs"
            using t False by simp
          also have "\<dots> = normalizeString False res (rev ts @ xs)"
            by (simp add: normalizeString_append)
          finally show ?thesis
            using dd Cons False Cons.IH [OF ts] by simp
        qed
      qed
    qed
  qed
qed

lemma splitSlash_Nil [simp]: "splitSlash [] = [[]]"
  by (simp add: splitSlash_def)

lemma splitSlash_absPath:
  "list_all cleanSeg cs \<Longrightarrow> splitSlash (absPath cs) = [] # (if cs = [] then [[]] else cs)"
proof -
  assume c: "list_all cleanSeg cs"
  have "splitSlash (absPath cs) = splitSlash [] @ splitSlash (joinSlash cs)"
    unfolding absPath_def using splitSlash_append [of "[]" "joinSlash cs"] by simp
  moreover have "cs \<noteq> [] \<Longrightarrow> splitSlash (joinSlash cs) = cs"
    using c by (intro splitSlash_joinSlash) (auto simp: list_all_iff cleanSeg_def)
  ultimately show ?thesis by auto
qed

lemma normalizeString_absPath:
  "list_all cleanSeg cs \<Longrightarrow> normalizeString a res (splitSlash (absPath cs)) = rev res @ cs"
  by (cases "cs = []") (simp_all add: splitSlash_absPath normalizeString_clean)

lemma splitSlash_snoc: "splitSlash (p @ ''/'') = splitSlash p @ [[]]"
  using splitSlash_append [of p "[]"] by simp

lemma normalizeString_snoc_empty:
  "normalizeString a res (xs @ [[]]) = normalizeString a res xs"
  by (simp add: normalizeString_append)

lemma isAbsolute_absPath [simp]: "isAbsolute (absPath cs)"
  by (simp add: isAbsolute_def absPath_def)

lemma isAbsolute_append: "isAbsolute p \<Longrightarrow> isAbsolute (p @ q)"
  by (cases p) (simp_all add: isAbsolute_def)

lemma resolve_absolute:
  "isAbsolute p \<Longrightarrow> resolve c p = absPath (normalizeString False [] (splitSlash p))"
proof -
  assume a: "isAbsolute p"
  then have "p \<noteq> []" by (auto simp: isAbsolute_def)
  with a show ?thesis
    unfolding resolve_def Let_def absPath_def
    by (simp add: isAbsolute_append splitSlash_snoc normalizeString_snoc_empty)
qed

lemma fsSegs_absolute:
  "isAbsolute p \<Longrightarrow> fsSegs e p = normalizeString False [] (splitSlash p)"
  by (simp add: fsSegs_def)

lemma fsSegs_absPath [simp]: "list_all cleanSeg cs \<Longrightarrow> fsSegs e (absPath cs) = cs"
  by (simp add: fsSegs_def normalizeString_absPath)

lemma resolve_absPath [simp]: "list_all cleanSeg cs \<Longrightarrow> resolve c (absPath cs) = absPath cs"
  by (simp add: resolve_absolute normalizeString_absPath)

lemma clean_segs_of: "list_all cleanSeg (normalizeString False [] (splitSlash p))"
  by (rule normalizeString_keeps_clean) (auto dest: splitSlash_pieces)

lemma clean_segs_on:
  "list_all cleanSeg bs \<Longrightarrow> list_all cleanSeg (normalizeString False (rev bs) (splitSlash p))"
  by (rule normalizeString_keeps_clean) (auto dest: splitSlash_pieces)

lemma clean_resolvedSegs: "list_all cleanSeg bs \<Longrightarrow> list_all cleanSeg (resolvedSegs bs q)"
  unfolding resolvedSegs_def using clean_segs_on [of bs q] clean_segs_of [of q] by simp

lemma joinSlash_clean_Nil: "list_all cleanSeg cs \<Longrightarrow> joinSlash cs = [] \<longleftrightarrow> cs = []"
  by (rule joinSlash_eq_Nil) (auto simp: list_all_iff cleanSeg_def)

lemma normalize_absolute:
  assumes "isAbsolute p"
  shows "normalize p =
     (let ns = normalizeString False [] (splitSlash p)
      in if ns = [] then ''/'' else absPath ns @ (if last p = CHR ''/'' then ''/'' else []))"
proof -
  from assms have "p \<noteq> []" by (auto simp: isAbsolute_def)
  with assms show ?thesis
    unfolding normalize_def Let_def absPath_def
    by (simp add: joinSlash_clean_Nil [OF clean_segs_of])
qed

lemma normalizeString_slash_tail:
  "list_all cleanSeg ns \<Longrightarrow> normalizeString a res (splitSlash (absPath ns @ t)) = rev res @ ns"
  if "t = [] \<or> t = ''/''"
  using that by (auto simp: normalizeString_absPath splitSlash_snoc normalizeString_snoc_empty)

lemma segs_normalize_absolute:
  assumes "isAbsolute p"
  shows "normalizeString False [] (splitSlash (normalize p)) = normalizeString False [] (splitSlash p)"
    and "isAbsolute (normalize p)"
proof -
  let ?ns = "normalizeString False [] (splitSlash p)"
  have c: "list_all cleanSeg ?ns" by (rule clean_segs_of)
  show "normalizeString False [] (splitSlash (normalize p)) = ?ns"
  proof (cases "?ns = []")
    case True
    then show ?thesis using assms by (simp add: normalize_absolute splitSlash_def)
  next
    case False
    then show ?thesis
      using assms c normalizeString_slash_tail [of "[]" ?ns False "[]"]
        normalizeString_slash_tail [of "''/''" ?ns False "[]"]
      by (simp add: normalize_absolute Let_def)
  qed
  show "isAbsolute (normalize p)"
    using assms by (simp add: normalize_absolute Let_def isAbsolute_def absPath_def)
qed

lemma normalizeString_elems:
  assumes "\<forall>x\<in>set xs. CHR ''/'' \<notin> set x"
    and "\<forall>t\<in>set res. t \<noteq> [] \<and> t \<noteq> ''.'' \<and> CHR ''/'' \<notin> set t"
  shows "\<forall>y\<in>set (normalizeString a res xs). y \<noteq> [] \<and> y \<noteq> ''.'' \<and> CHR ''/'' \<notin> set y"
  using assms
proof (induction xs arbitrary: res)
  case Nil
  then show ?case by simp
next
  case (Cons x xs)
  have xs: "\<forall>x\<in>set xs. CHR ''/'' \<notin> set x"
    using Cons.prems(1) by simp
  have x: "CHR ''/'' \<notin> set x"
    using Cons.prems(1) by simp
  note IH = Cons.IH [OF xs]
  show ?case
  proof (cases "x = [] \<or> x = ''.''")
    case True
    then show ?thesis using IH [OF Cons.prems(2)] by auto
  next
    case ns: False
    show ?thesis
    proof (cases "x = ''..''")
      case False
      have "\<forall>t\<in>set (x # res). t \<noteq> [] \<and> t \<noteq> ''.'' \<and> CHR ''/'' \<notin> set t"
        using ns x Cons.prems(2) by simp
      from IH [OF this] show ?thesis using ns False by simp
    next
      case dd: True
      have r1: "\<forall>t\<in>set (''..'' # res). t \<noteq> [] \<and> t \<noteq> ''.'' \<and> CHR ''/'' \<notin> set t"
        using Cons.prems(2) by simp
      have r2: "\<forall>t\<in>set (tl res). t \<noteq> [] \<and> t \<noteq> ''.'' \<and> CHR ''/'' \<notin> set t"
        using Cons.prems(2) by (cases res) simp_all
      have r3: "\<forall>t\<in>set ([]::string list). t \<noteq> [] \<and> t \<noteq> ''.'' \<and> CHR ''/'' \<notin> set t"
        by simp
      have r4: "\<forall>t\<in>set [''..'']. t \<noteq> [] \<and> t \<noteq> ''.'' \<and> CHR ''/'' \<notin> set t"
        by simp
      show ?thesis
      proof (cases res)
        case Nil
        then show ?thesis using dd IH [OF r3] IH [OF r4] by (cases a) simp_all
      next
        case (Cons t ts)
        then show ?thesis
          using dd IH [OF r1] IH [OF r2] IH [OF Cons.prems(2)] by (cases a) simp_all
      qed
    qed
  qed
qed

lemma normalizeString_True_elems:
  "\<forall>y\<in>set (normalizeString True [] (splitSlash q)). y \<noteq> [] \<and> y \<noteq> ''.'' \<and> CHR ''/'' \<notin> set y"
  by (rule normalizeString_elems) (auto dest: splitSlash_pieces)

lemma hd_joinSlash:
  "segs \<noteq> [] \<Longrightarrow> hd segs \<noteq> [] \<Longrightarrow> hd (joinSlash segs) = hd (hd segs)"
  by (cases segs; cases "tl segs") (auto simp: joinSlash_def)

lemma normalize_relative:
  assumes "\<not> isAbsolute q"
  shows "normalizeString False res (splitSlash (normalize q)) = normalizeString False res (splitSlash q)"
    and "\<not> isAbsolute (normalize q)"
    and "normalize q \<noteq> []"
proof -
  let ?ns = "normalizeString True [] (splitSlash q)"
  have el: "\<forall>y\<in>set ?ns. y \<noteq> [] \<and> y \<noteq> ''.'' \<and> CHR ''/'' \<notin> set y"
    by (rule normalizeString_True_elems)
  have tw: "normalizeString False res ?ns = normalizeString False res (splitSlash q)"
    using normalizeString_twice [of "[]" res "splitSlash q"] by simp
  have nil: "joinSlash ?ns = [] \<longleftrightarrow> ?ns = []"
    using el by (intro joinSlash_eq_Nil) auto
  show "normalizeString False res (splitSlash (normalize q)) = normalizeString False res (splitSlash q)"
  proof (cases "q = []")
    case True
    then show ?thesis by (simp add: normalize_def splitSlash_def)
  next
    case q: False
    show ?thesis
    proof (cases "?ns = []")
      case True
      then have "normalize q = ''.'' \<or> normalize q = ''./''"
        using q assms by (simp add: normalize_def Let_def)
      moreover have "normalizeString False res (splitSlash q) = rev res"
        using tw True by simp
      ultimately show ?thesis by (auto simp: splitSlash_def)
    next
      case False
      then have sp: "splitSlash (joinSlash ?ns) = ?ns"
        using el by (intro splitSlash_joinSlash) auto
      have "normalize q = joinSlash ?ns \<or> normalize q = joinSlash ?ns @ ''/''"
        using q assms False nil by (simp add: normalize_def Let_def)
      then show ?thesis
        using sp tw by (auto simp: splitSlash_snoc normalizeString_snoc_empty)
    qed
  qed
  show "normalize q \<noteq> []"
    using nil by (auto simp: normalize_def Let_def)
  show "\<not> isAbsolute (normalize q)"
  proof (cases "q = [] \<or> ?ns = []")
    case True
    then show ?thesis using assms by (auto simp: normalize_def Let_def isAbsolute_def)
  next
    case False
    then have "hd ?ns \<noteq> []" "CHR ''/'' \<notin> set (hd ?ns)"
      using el by (cases ?ns; auto)+
    then have "hd (joinSlash ?ns) \<noteq> CHR ''/''"
      using False hd_joinSlash [of ?ns] by (cases "hd ?ns") auto
    moreover have "joinSlash ?ns \<noteq> []" using False nil by simp
    ultimately show ?thesis
      using False assms nil by (cases "joinSlash ?ns") (auto simp: normalize_def Let_def isAbsolute_def)
  qed
qed

lemma join_absPath:
  assumes bs: "list_all cleanSeg bs" and x: "x \<noteq> []"
  shows "join [absPath bs, x] =
     (let ns = normalizeString False (rev bs) (splitSlash x)
      in if ns = [] then ''/'' else absPath ns @ (if last x = CHR ''/'' then ''/'' else []))"
proof -
  have j: "joinSlash [absPath bs, x] = absPath bs @ CHR ''/'' # x"
    by (simp add: joinSlash_def)
  have ab: "isAbsolute (absPath bs @ CHR ''/'' # x)"
    by (simp add: isAbsolute_append)
  have ns: "normalizeString False [] (splitSlash (absPath bs @ CHR ''/'' # x))
      = normalizeString False (rev bs) (splitSlash x)"
    using bs by (simp add: splitSlash_append normalizeString_append normalizeString_absPath)
  have "absPath bs \<noteq> []" by (simp add: absPath_def)
  then show ?thesis
    using x j normalize_absolute [OF ab] ns by (simp add: join_def Let_def)
qed

lemma join_absPath_segs:
  assumes bs: "list_all cleanSeg bs"
  shows "normalizeString False [] (splitSlash (join [absPath bs, x]))
           = normalizeString False (rev bs) (splitSlash x)"
    and "isAbsolute (join [absPath bs, x])"
proof -
  let ?ns = "normalizeString False (rev bs) (splitSlash x)"
  have c: "list_all cleanSeg ?ns" using bs by (rule clean_segs_on)
  have e: "join [absPath bs, []] = normalize (absPath bs)"
    by (simp add: join_def absPath_def joinSlash_def)
  show "normalizeString False [] (splitSlash (join [absPath bs, x])) = ?ns"
  proof (cases "x = []")
    case True
    then show ?thesis
      using e segs_normalize_absolute(1) [of "absPath bs"] bs
      by (simp add: normalizeString_absPath)
  next
    case False
    show ?thesis
    proof (cases "?ns = []")
      case True
      with False bs show ?thesis by (simp add: join_absPath splitSlash_def)
    next
      case ns: False
      then show ?thesis
        using False bs c normalizeString_slash_tail [of "[]" ?ns False "[]"]
          normalizeString_slash_tail [of "''/''" ?ns False "[]"]
        by (simp add: join_absPath Let_def)
    qed
  qed
  show "isAbsolute (join [absPath bs, x])"
  proof (cases "x = []")
    case True
    then show ?thesis using e segs_normalize_absolute(2) [of "absPath bs"] by simp
  next
    case False
    have "isAbsolute (absPath ?ns @ t)" for t
      by (simp add: isAbsolute_append)
    then show ?thesis
      using join_absPath [OF bs False] by (auto simp: Let_def isAbsolute_def)
  qed
qed

lemma resolve_validate:
  assumes bs: "list_all cleanSeg bs"
  shows "resolve c (if isAbsolute (normalize q) then normalize q else join [absPath bs, normalize q])
           = absPath (resolvedSegs bs q)"
proof (cases "isAbsolute q")
  case True
  then show ?thesis
    using segs_normalize_absolute [of q] by (simp add: resolve_absolute resolvedSegs_def)
next
  case False
  then show ?thesis
    using normalize_relative(1) [of q "rev bs"] normalize_relative(2) [of q]
      join_absPath_segs [OF bs, of "normalize q"]
    by (simp add: resolve_absolute resolvedSegs_def)
qed

lemma validateSkillPath_absPath:
  assumes bs: "list_all cleanSeg bs"
  shows "validateSkillPath e q (absPath bs) =
     (let r = absPath (resolvedSegs bs q)
      in if \<not> startsWith r (absPath bs @ ''/'') \<and> r \<noteq> absPath bs then Inl PathEscape else Inr r)"
proof -
  have r: "resolve (cwd e) (if isAbsolute (normalize q) then normalize q else join [absPath bs, normalize q])
      = absPath (resolvedSegs bs q)"
    by (rule resolve_validate [OF bs])
  have b: "resolve (cwd e) (absPath bs) = absPath bs"
    using bs by simp
  show ?thesis
    unfolding validateSkillPath_def Let_def r b by (rule refl)
qed

lemma startsWith_prefix: "startsWith s p \<longleftrightarrow> prefix p s"
proof
  assume "startsWith s p"
  then have "s = p @ drop (length p) s"
    unfolding startsWith_def by (metis append_take_drop_id)
  then show "prefix p s" unfolding prefix_def by blast
next
  assume "prefix p s"
  then show "startsWith s p" by (auto simp: startsWith_def prefix_def)
qed

lemma absPath_inj:
  assumes r: "list_all cleanSeg r" and bs: "list_all cleanSeg bs" and eq: "absPath r = absPath bs"
  shows "r = bs"
proof -
  have "r = normalizeString False [] (splitSlash (absPath r))"
    using r by (simp add: normalizeString_absPath)
  also have "\<dots> = normalizeString False [] (splitSlash (absPath bs))"
    by (simp only: eq)
  also have "\<dots> = bs"
    using bs by (simp add: normalizeString_absPath)
  finally show ?thesis .
qed

lemma absPath_append:
  "bs \<noteq> [] \<Longrightarrow> zs \<noteq> [] \<Longrightarrow> absPath (bs @ zs) = absPath bs @ CHR ''/'' # joinSlash zs"
  by (simp add: absPath_def joinSlash_append)

lemma absPath_snoc:
  "absPath (cs @ [s]) = (if cs = [] then [] else absPath cs) @ CHR ''/'' # s"
proof (cases "cs = []")
  case True
  then show ?thesis by (simp add: absPath_def)
next
  case False
  then show ?thesis using absPath_append [of cs "[s]"] by simp
qed

lemma within_prefix:
  assumes r: "list_all cleanSeg r" and bs: "list_all cleanSeg bs" and ne: "bs \<noteq> []"
  shows "(startsWith (absPath r) (absPath bs @ ''/'') \<or> absPath r = absPath bs) \<longleftrightarrow> prefix bs r"
proof
  assume "prefix bs r"
  then obtain zs where zs: "r = bs @ zs" by (auto simp: prefix_def)
  show "startsWith (absPath r) (absPath bs @ ''/'') \<or> absPath r = absPath bs"
  proof (cases "zs = []")
    case True
    with zs show ?thesis by simp
  next
    case False
    with zs ne show ?thesis
      by (simp add: absPath_append startsWith_prefix)
  qed
next
  assume "startsWith (absPath r) (absPath bs @ ''/'') \<or> absPath r = absPath bs"
  then show "prefix bs r"
  proof
    assume "absPath r = absPath bs"
    with r bs have "r = bs" by (rule absPath_inj)
    then show ?thesis by simp
  next
    assume "startsWith (absPath r) (absPath bs @ ''/'')"
    then obtain t where t: "absPath r = absPath bs @ CHR ''/'' # t"
      by (auto simp: startsWith_prefix prefix_def)
    have "splitSlash (absPath r) = splitSlash (absPath bs) @ splitSlash t"
      unfolding t by (rule splitSlash_append)
    moreover have "r \<noteq> []"
    proof
      assume "r = []"
      with t have "length (absPath bs) = 0" by (simp add: absPath_def)
      then show False by (simp add: absPath_def)
    qed
    ultimately have "[] # r = ([] # bs) @ splitSlash t"
      using r bs ne by (simp add: splitSlash_absPath)
    then show ?thesis by (simp add: prefix_def)
  qed
qed

lemma validateSkillPath_segs:
  assumes bs: "list_all cleanSeg bs" and ne: "bs \<noteq> []"
  shows "validateSkillPath e q (absPath bs) =
     (if prefix bs (resolvedSegs bs q) then Inr (absPath (resolvedSegs bs q)) else Inl PathEscape)"
  using within_prefix [OF clean_resolvedSegs [OF bs, of q] bs ne]
  by (auto simp: validateSkillPath_absPath [OF bs] Let_def)

lemma takeWhile_not_sep: "c \<notin> set s \<Longrightarrow> takeWhile (\<lambda>x. x \<noteq> c) (s @ c # t) = s"
  by (induction s) auto

lemma dropWhile_not_sep:
  "c \<notin> set s \<Longrightarrow> dropWhile (\<lambda>x. x \<noteq> c) (s @ t) = dropWhile (\<lambda>x. x \<noteq> c) t"
  by (induction s) auto

lemma dropWhile_sep_rev:
  "s \<noteq> [] \<Longrightarrow> c \<notin> set s \<Longrightarrow> dropWhile (\<lambda>x. x = c) (rev s @ t) = rev s @ t"
proof -
  assume a: "s \<noteq> []" "c \<notin> set s"
  then obtain y ys where r: "rev s = y # ys" by (cases "rev s") auto
  then have "y \<in> set s" by (metis list.set_intros(1) set_rev)
  with a r show ?thesis by auto
qed

lemma basename_slash_snoc:
  assumes "s \<noteq> []" and "CHR ''/'' \<notin> set s"
  shows "basename (pre @ CHR ''/'' # s) = s"
proof -
  have "rev (pre @ CHR ''/'' # s) = rev s @ CHR ''/'' # rev pre" by simp
  moreover have "dropWhile (\<lambda>x. x = CHR ''/'') (rev s @ CHR ''/'' # rev pre) = rev s @ CHR ''/'' # rev pre"
    using assms by (rule dropWhile_sep_rev)
  moreover have "takeWhile (\<lambda>x. x \<noteq> CHR ''/'') (rev s @ CHR ''/'' # rev pre) = rev s"
    using assms(2) takeWhile_not_sep [of "CHR ''/''" "rev s"] by simp
  ultimately show ?thesis
    unfolding basename_def by (simp only: rev_rev_ident)
qed

lemma basename_absPath_snoc:
  assumes "cleanSeg s"
  shows "basename (absPath (cs @ [s])) = s"
  unfolding absPath_snoc using assms by (intro basename_slash_snoc) (auto simp: cleanSeg_def)

lemma dirname_root_child:
  assumes "s \<noteq> []" and "CHR ''/'' \<notin> set s"
  shows "dirname (CHR ''/'' # s) = ''/''"
proof -
  have "dropWhile (\<lambda>x. x = CHR ''/'') (rev s @ []) = rev s @ []"
    using assms by (rule dropWhile_sep_rev)
  moreover have "dropWhile (\<lambda>x. x \<noteq> CHR ''/'') (rev s @ []) = dropWhile (\<lambda>x. x \<noteq> CHR ''/'') []"
    using assms(2) dropWhile_not_sep [of "CHR ''/''" "rev s" "[]"] by simp
  ultimately show ?thesis
    by (simp add: dirname_def)
qed

lemma dirname_nested:
  assumes "s \<noteq> []" and "CHR ''/'' \<notin> set s" and "pre \<noteq> []"
  shows "dirname (CHR ''/'' # pre @ CHR ''/'' # s) = CHR ''/'' # pre"
proof -
  have a: "rev (pre @ CHR ''/'' # s) = rev s @ CHR ''/'' # rev pre" by simp
  have b: "dropWhile (\<lambda>x. x = CHR ''/'') (rev s @ CHR ''/'' # rev pre) = rev s @ CHR ''/'' # rev pre"
    using assms(1,2) by (rule dropWhile_sep_rev)
  have c: "dropWhile (\<lambda>x. x \<noteq> CHR ''/'') (rev s @ CHR ''/'' # rev pre) = CHR ''/'' # rev pre"
    using assms(2) dropWhile_not_sep [of "CHR ''/''" "rev s" "CHR ''/'' # rev pre"] by simp
  show ?thesis
    unfolding dirname_def list.case Let_def a b c using assms(3) by simp
qed

lemma dirname_absPath_snoc:
  assumes s: "cleanSeg s" and cs: "list_all cleanSeg cs"
  shows "dirname (absPath (cs @ [s])) = absPath cs"
proof (cases "cs = []")
  case True
  then show ?thesis
    using s dirname_root_child [of s] by (simp add: absPath_def cleanSeg_def)
next
  case False
  then have j: "joinSlash cs \<noteq> []"
    using cs joinSlash_clean_Nil by blast
  have "absPath (cs @ [s]) = CHR ''/'' # joinSlash cs @ CHR ''/'' # s"
    using False by (simp add: absPath_def joinSlash_append)
  then show ?thesis
    using s j dirname_nested [of s "joinSlash cs"] by (simp add: absPath_def cleanSeg_def)
qed

lemma dirname_absPath:
  assumes "list_all cleanSeg r" and "r \<noteq> []"
  shows "dirname (absPath r) = absPath (butlast r)"
proof -
  from assms obtain cs s where "r = cs @ [s]" by (metis rev_exhaust)
  with assms show ?thesis by (simp add: dirname_absPath_snoc)
qed

lemma absPath_root_iff: "list_all cleanSeg cs \<Longrightarrow> absPath cs = ''/'' \<longleftrightarrow> cs = []"
  by (simp add: absPath_def joinSlash_clean_Nil)

lemma resolved_base:
  assumes "isAbsolute base" and "resolve c base = base" and "base \<noteq> ''/''"
  shows "base = absPath (fsSegs e base)" and "list_all cleanSeg (fsSegs e base)" and "fsSegs e base \<noteq> []"
proof -
  have s: "fsSegs e base = normalizeString False [] (splitSlash base)"
    using assms(1) by (rule fsSegs_absolute)
  show b: "base = absPath (fsSegs e base)"
    using assms(1,2) by (simp add: s resolve_absolute)
  show "list_all cleanSeg (fsSegs e base)"
    unfolding s by (rule clean_segs_of)
  show "fsSegs e base \<noteq> []"
  proof
    assume "fsSegs e base = []"
    with b have "base = ''/''" by (simp add: absPath_def)
    with assms(3) show False by simp
  qed
qed

section \<open>Bundles and validated paths\<close>

lemma skillsDir_resolved:
  assumes "isAbsolute (userData e)"
  shows "isAbsolute (getSkillsDir e)" and "resolve c (getSkillsDir e) = getSkillsDir e"
    and "getSkillsDir e \<noteq> ''/''"
proof -
  let ?u = "userData e"
  let ?ud = "normalizeString False [] (splitSlash ?u)"
  from assms have u: "?u \<noteq> []" by (auto simp: isAbsolute_def)
  have c: "list_all cleanSeg (?ud @ [''skills''])"
    using clean_segs_of [of ?u] by (simp add: cleanSeg_def)
  have ab: "isAbsolute (?u @ CHR ''/'' # ''skills'')"
    using assms by (rule isAbsolute_append)
  have "normalizeString False [] (splitSlash (?u @ CHR ''/'' # ''skills'')) = ?ud @ [''skills'']"
    by (simp add: splitSlash_append normalizeString_append splitSlash_single)
  then have "normalize (?u @ CHR ''/'' # ''skills'') = absPath (?ud @ [''skills''])"
    using normalize_absolute [OF ab] by (simp add: Let_def)
  then have g: "getSkillsDir e = absPath (?ud @ [''skills''])"
    using u by (simp add: getSkillsDir_def join_def joinSlash_def)
  show "isAbsolute (getSkillsDir e)" by (simp add: g)
  show "resolve c (getSkillsDir e) = getSkillsDir e"
    unfolding g using c by (rule resolve_absPath)
  show "getSkillsDir e \<noteq> ''/''"
    unfolding g using absPath_root_iff [OF c] by simp
qed

lemma validated_form:
  assumes "isAbsolute base" and "resolve (cwd e) base = base" and "base \<noteq> ''/''"
    and "validateSkillPath e q base = Inr vp"
  shows "vp = absPath (fsSegs e vp)" and "list_all cleanSeg (fsSegs e vp)"
    and "prefix (fsSegs e base) (fsSegs e vp)"
proof -
  note b = resolved_base [OF assms(1-3), of e]
  let ?r = "resolvedSegs (fsSegs e base) q"
  have c: "list_all cleanSeg ?r" using b(2) by (rule clean_resolvedSegs)
  have "validateSkillPath e q (absPath (fsSegs e base)) = Inr vp"
    using assms(4) b(1) by simp
  then have v: "vp = absPath ?r" "prefix (fsSegs e base) ?r"
    using validateSkillPath_segs [OF b(2,3), of e q] by (auto split: if_splits)
  then have s: "fsSegs e vp = ?r" using c by simp
  show "vp = absPath (fsSegs e vp)" using v(1) s by simp
  show "list_all cleanSeg (fsSegs e vp)" using c s by simp
  show "prefix (fsSegs e base) (fsSegs e vp)" using v(2) s by simp
qed

lemma list_all_butlast: "list_all P xs \<Longrightarrow> list_all P (butlast xs)"
  by (auto simp: list_all_iff dest: in_set_butlastD)

lemma bundle_dir:
  assumes "isAbsolute (userData e)" and "validateSkillPath e skillPath (getSkillsDir e) = Inr sp"
    and "dirname sp \<noteq> ''/''"
  shows "dirname sp = absPath (fsSegs e (dirname sp))" and "list_all cleanSeg (fsSegs e (dirname sp))"
    and "fsSegs e (dirname sp) \<noteq> []"
proof -
  note k = skillsDir_resolved(1) [OF assms(1)] skillsDir_resolved(2) [OF assms(1), of "cwd e"]
    skillsDir_resolved(3) [OF assms(1)]
  note v = validated_form [OF k assms(2)]
  have kn: "fsSegs e (getSkillsDir e) \<noteq> []"
    using resolved_base(3) [OF k] .
  then have ne: "fsSegs e sp \<noteq> []" using v(3) by auto
  have d: "dirname sp = absPath (butlast (fsSegs e sp))"
    using dirname_absPath [OF v(2) ne] v(1) by simp
  have c: "list_all cleanSeg (butlast (fsSegs e sp))"
    using v(2) by (rule list_all_butlast)
  then have s: "fsSegs e (dirname sp) = butlast (fsSegs e sp)"
    by (simp add: d)
  show "dirname sp = absPath (fsSegs e (dirname sp))" using d s by simp
  show "list_all cleanSeg (fsSegs e (dirname sp))" using c s by simp
  show "fsSegs e (dirname sp) \<noteq> []"
    using assms(3) d s by (auto simp: absPath_def)
qed

lemma validate_joined:
  assumes d: "list_all cleanSeg d" and ne: "d \<noteq> []"
  shows "validateSkillPath e (join [absPath d, t]) (absPath d) =
     (if prefix d (normalizeString False (rev d) (splitSlash t))
      then Inr (absPath (normalizeString False (rev d) (splitSlash t))) else Inl PathEscape)"
  using validateSkillPath_segs [OF d ne, of e "join [absPath d, t]"] join_absPath_segs [OF d, of t]
  by (simp add: resolvedSegs_def)

lemma validate_joined_clean:
  assumes d: "list_all cleanSeg d" and ne: "d \<noteq> []" and t: "list_all cleanSeg ts" and tn: "ts \<noteq> []"
  shows "validateSkillPath e (join [absPath d, joinSlash ts]) (absPath d) = Inr (absPath (d @ ts))"
proof -
  have "splitSlash (joinSlash ts) = ts"
    using t tn by (intro splitSlash_joinSlash) (auto simp: list_all_iff cleanSeg_def)
  then show ?thesis
    using validate_joined [OF d ne, of e "joinSlash ts"] t by (simp add: normalizeString_clean)
qed

lemma validate_sibling:
  assumes d: "list_all cleanSeg d" and ne: "d \<noteq> []" and f: "list_all cleanSeg f" and n: "cleanSeg n"
  shows "validateSkillPath e (join [absPath (d @ f), n]) (absPath d) = Inr (absPath (d @ f @ [n]))"
proof -
  have df: "list_all cleanSeg (d @ f)" using d f by simp
  have sn: "splitSlash n = [n]" using n by (simp add: splitSlash_single cleanSeg_def)
  have s: "normalizeString False [] (splitSlash (join [absPath (d @ f), n])) = d @ f @ [n]"
    using join_absPath_segs(1) [OF df, of n] n sn by (simp add: cleanSeg_def)
  have a: "isAbsolute (join [absPath (d @ f), n])"
    using join_absPath_segs(2) [OF df, of n] .
  show ?thesis
    using validateSkillPath_segs [OF d ne, of e "join [absPath (d @ f), n]"] a s
    by (simp add: resolvedSegs_def)
qed

lemma existsSync_absPath:
  "list_all cleanSeg cs \<Longrightarrow> existsSync e fs (absPath cs) \<longleftrightarrow> lookup fs cs \<noteq> None"
  by (simp add: existsSync_def)

lemma readFile_exists: "readFile e fs p = Inr c \<Longrightarrow> existsSync e fs p"
  by (auto simp: readFile_def existsSync_def split: option.splits node.splits)

lemma sanitizeFileName_Inr:
  "sanitizeFileName n = Inr s \<Longrightarrow> s = filter isFileNameChar n \<and> s \<noteq> [] \<and> n \<noteq> []"
  by (auto simp: sanitizeFileName_def Let_def split: if_splits)

lemma cleanSeg_SKILL: "cleanSeg ''SKILL.md''"
  by (simp add: cleanSeg_def)

lemma last_joinSlash_snoc: "n \<noteq> [] \<Longrightarrow> last (joinSlash (f @ [n])) = last n"
  by (cases "f = []") (simp_all add: joinSlash_append)

lemma readFile_Inr:
  "readFile e fs p = Inr c \<longleftrightarrow> (\<exists>b. lookup fs (fsSegs e p) = Some (File b) \<and> c = utf8Decode b)"
  by (auto simp: readFile_def split: option.splits node.splits)

lemma readFile_File: "lookup fs (fsSegs e p) = Some (File b) \<Longrightarrow> readFile e fs p = Inr (utf8Decode b)"
  by (simp add: readFile_def)

section \<open>Sorting with a comparison function\<close>

lemma set_insertSorted [simp]: "set (insertSorted cmp x ys) = insert x (set ys)"
  by (induction ys) auto

lemma set_sortWith [simp]: "set (sortWith cmp xs) = set xs"
  by (induction xs) (simp_all add: sortWith_def)

lemma sorted_insertSorted:
  assumes c: "consistentComparator cmp"
  shows "sorted_wrt (\<lambda>a b. cmp a b \<le> 0) ys \<Longrightarrow> sorted_wrt (\<lambda>a b. cmp a b \<le> 0) (insertSorted cmp x ys)"
proof (induction ys)
  case Nil
  then show ?case by simp
next
  case (Cons y ys)
  from c have tot: "cmp x y \<le> 0 \<or> cmp y x \<le> 0"
    and tr: "\<And>a b d. cmp a b \<le> 0 \<Longrightarrow> cmp b d \<le> 0 \<Longrightarrow> cmp a d \<le> 0"
    unfolding consistentComparator_def by blast+
  show ?case
  proof (cases "cmp x y \<le> 0")
    case True
    then have "\<forall>z\<in>set ys. cmp x z \<le> 0"
      using Cons.prems tr by auto
    with True Cons.prems show ?thesis by simp
  next
    case False
    with tot have "cmp y x \<le> 0" by simp
    with False Cons show ?thesis by auto
  qed
qed

lemma sorted_sortWith:
  "consistentComparator cmp \<Longrightarrow> sorted_wrt (\<lambda>a b. cmp a b \<le> 0) (sortWith cmp xs)"
  by (induction xs) (simp_all add: sortWith_def sorted_insertSorted)

lemma nodeType_isFolder: "nodeType a = nodeType b \<longleftrightarrow> isFolder a = isFolder b"
  by (cases a; cases b) simp_all

lemma nodeType_folder: "nodeType a = ''folder'' \<longleftrightarrow> isFolder a"
  by (cases a) simp_all

lemma compareNodes_le:
  "compareNodes lc a b \<le> 0 \<longleftrightarrow>
     (if isFolder a = isFolder b then lc (nodeName a) (nodeName b) \<le> 0 else isFolder a)"
  by (simp add: compareNodes_def nodeType_isFolder nodeType_folder)

lemma consistent_compareNodes:
  assumes "consistentComparator lc"
  shows "consistentComparator (compareNodes lc)"
proof -
  from assms have tot: "\<And>a b. lc a b \<le> 0 \<or> lc b a \<le> 0"
    and tr: "\<And>a b d. lc a b \<le> 0 \<Longrightarrow> lc b d \<le> 0 \<Longrightarrow> lc a d \<le> 0"
    unfolding consistentComparator_def by blast+
  show ?thesis
    unfolding consistentComparator_def compareNodes_le
  proof (intro conjI allI impI)
    fix a b
    show "(if isFolder a = isFolder b then lc (nodeName a) (nodeName b) \<le> 0 else isFolder a)
        \<or> (if isFolder b = isFolder a then lc (nodeName b) (nodeName a) \<le> 0 else isFolder b)"
      using tot [of "nodeName a" "nodeName b"] by auto
  next
    fix a b d
    assume "(if isFolder a = isFolder b then lc (nodeName a) (nodeName b) \<le> 0 else isFolder a)
        \<and> (if isFolder b = isFolder d then lc (nodeName b) (nodeName d) \<le> 0 else isFolder b)"
    then show "if isFolder a = isFolder d then lc (nodeName a) (nodeName d) \<le> 0 else isFolder a"
      using tr [of "nodeName a" "nodeName b" "nodeName d"] by (auto split: if_splits)
  qed
qed

lemma foldersFirst_sorted:
  "sorted_wrt (\<lambda>a b. compareNodes lc a b \<le> 0) ns \<Longrightarrow> foldersFirst ns"
proof (induction ns)
  case Nil
  then show ?case by (simp add: foldersFirst_def)
next
  case (Cons x xs)
  show ?case
  proof (cases "isFolder x")
    case True
    with Cons show ?thesis by (simp add: foldersFirst_def)
  next
    case False
    have "\<forall>y\<in>set xs. \<not> isFolder y"
      using Cons.prems False by (auto simp: compareNodes_le split: if_splits)
    with False show ?thesis by (simp add: foldersFirst_def list_all_iff)
  qed
qed

lemma sortedByName_group:
  assumes s: "sorted_wrt (\<lambda>a b. compareNodes lc a b \<le> 0) ns"
    and g: "\<forall>a\<in>set ns. \<forall>b\<in>set ns. isFolder a = isFolder b"
  shows "sortedByName lc ns"
  unfolding sortedByName_def
proof (rule sorted_wrt_mono_rel [OF _ s])
  fix x y
  assume xy: "x \<in> set ns" "y \<in> set ns" and le: "compareNodes lc x y \<le> 0"
  from g xy have "isFolder x = isFolder y" by blast
  with le show "lc (nodeName x) (nodeName y) \<le> 0"
    by (simp add: compareNodes_le)
qed

lemma levelOrdered_sorted:
  assumes s: "sorted_wrt (\<lambda>a b. compareNodes lc a b \<le> 0) ns"
  shows "levelOrdered lc ns"
proof -
  have "sortedByName lc (filter isFolder ns)"
    by (rule sortedByName_group [OF sorted_wrt_filter [OF s]]) simp
  moreover have "sortedByName lc (filter (\<lambda>n. \<not> isFolder n) ns)"
    by (rule sortedByName_group [OF sorted_wrt_filter [OF s]]) simp
  ultimately show ?thesis
    using foldersFirst_sorted [OF s] by (simp add: levelOrdered_def)
qed

lemma levelOrdered_buildFileTree:
  "consistentComparator lc \<Longrightarrow> levelOrdered lc (buildFileTree lc entries rel)"
  unfolding buildFileTree.simps [of lc entries rel]
  by (intro levelOrdered_sorted sorted_sortWith consistent_compareNodes)

lemma list_all_sortWith_map:
  "(\<And>x. x \<in> set xs \<Longrightarrow> P (f x)) \<Longrightarrow> list_all P (sortWith cmp (map f xs))"
  by (auto simp: list_all_iff)

lemma treeOrdered_buildFileTree:
  "consistentComparator lc \<Longrightarrow> list_all (treeOrdered lc) (buildFileTree lc entries rel)"
proof (induction lc entries rel rule: buildFileTree.induct)
  case (1 lc entries rel)
  show ?case
    unfolding buildFileTree.simps [of lc entries rel]
  proof (rule list_all_sortWith_map)
    fix x
    assume x: "x \<in> set (filter (\<lambda>(entryName, n).
        \<not> (startsWith entryName ''.'' \<or> entryName = ''node_modules'')) entries)"
    obtain entryName n where p: "x = (entryName, n)"
      by (cases x)
    let ?rp = "if rel \<noteq> [] then join [rel, entryName] else entryName"
    show "treeOrdered lc
        (case x of
           (entryName, n) \<Rightarrow>
             (let relPath = (if rel \<noteq> [] then join [rel, entryName] else entryName)
              in (case n of
                    Dir sub \<Rightarrow> FolderNode entryName relPath (buildFileTree lc sub relPath)
                  | File c \<Rightarrow>
                      FileNode entryName relPath (getFileType entryName) (length c)
                        (isEditableFile entryName))))"
    proof (cases n)
      case (File content)
      with p show ?thesis by (simp add: Let_def)
    next
      case (Dir sub)
      have "list_all (treeOrdered lc) (buildFileTree lc sub ?rp)"
        using "1.IH" [OF x p [symmetric] refl Dir] "1.prems" by simp
      moreover have "levelOrdered lc (buildFileTree lc sub ?rp)"
        using "1.prems" by (rule levelOrdered_buildFileTree)
      ultimately show ?thesis using p Dir by (simp add: Let_def)
    qed
  qed
qed

lemma sample_listing:
  assumes "localeCompare ''b.txt'' ''a.txt'' > 0"
  shows "buildFileTree localeCompare
           [(''b.txt'', File contentB), (''a.txt'', File contentA), (''z'', Dir [])] []
         = [FolderNode ''z'' ''z'' [],
            FileNode ''a.txt'' ''a.txt'' ''text'' (length contentA) True,
            FileNode ''b.txt'' ''b.txt'' ''text'' (length contentB) True]"
proof -
  have t: "getFileType ''a.txt'' = ''text''" "getFileType ''b.txt'' = ''text''"
    "isEditableFile ''a.txt''" "isEditableFile ''b.txt''"
    by code_simp+
  have h: "\<not> startsWith ''b.txt'' ''.''" "\<not> startsWith ''a.txt'' ''.''" "\<not> startsWith ''z'' ''.''"
    by code_simp+
  have z: "buildFileTree localeCompare [] ''z'' = []"
    by (simp add: buildFileTree.simps sortWith_def)
  show ?thesis
    using assms by (simp add: buildFileTree.simps [of _ "_ # _"] h t z sortWith_def compareNodes_def)
qed

section \<open>Facts about the file system\<close>

lemma map_of_update [simp]: "map_of (AList.update k v al) k' = (if k' = k then Some v else map_of al k')"
  by (simp add: update_conv)

lemma lookup_newDirs:
  "lookup (newDirs ss) ts = (if prefix ts ss then Some (newDirs (drop (length ts) ss)) else None)"
proof (induction ss arbitrary: ts)
  case Nil
  then show ?case by (cases ts) simp_all
next
  case (Cons s ss)
  then show ?case by (cases ts) simp_all
qed

lemma mkdirAt_existing: "lookup fs p = Some (Dir es) \<Longrightarrow> mkdirAt fs p = Inr fs"
proof (induction p arbitrary: fs)
  case Nil
  then show ?case by simp
next
  case (Cons s ss)
  then obtain es0 ch where fs: "fs = Dir es0" and m: "map_of es0 s = Some ch"
    and l: "lookup ch ss = Some (Dir es)"
    by (cases fs) (auto split: option.splits)
  from Cons.IH [OF l] have "mkdirAt ch ss = Inr ch" .
  then show ?case
    using fs m by (simp add: update_triv)
qed

lemma mkdirAt_directory: "mkdirAt fs p = Inr fs' \<Longrightarrow> \<exists>es. lookup fs' p = Some (Dir es)"
proof (induction fs p arbitrary: fs' rule: mkdirAt.induct)
  case (4 es s ss)
  show ?case
  proof (cases "map_of es s")
    case None
    with "4.prems" have "fs' = Dir (AList.update s (newDirs ss) es)" by simp
    then show ?thesis by (cases ss) (simp_all add: lookup_newDirs)
  next
    case (Some ch)
    with "4.prems" obtain ch' where c: "mkdirAt ch ss = Inr ch'" and f: "fs' = Dir (AList.update s ch' es)"
      by (auto split: sum.splits)
    from "4.IH" [OF Some c] f show ?thesis by simp
  qed
qed simp_all

lemma mkdirAt_elsewhere:
  "mkdirAt fs p = Inr fs' \<Longrightarrow> \<not> prefix q p \<Longrightarrow> lookup fs' q = lookup fs q"
proof (induction fs p arbitrary: fs' q rule: mkdirAt.induct)
  case (4 es s ss)
  from "4.prems"(2) obtain t ts where q: "q = t # ts" by (cases q) auto
  show ?case
  proof (cases "t = s")
    case False
    with "4.prems"(1) q show ?thesis by (auto split: option.splits sum.splits)
  next
    case True
    with "4.prems"(2) q have np: "\<not> prefix ts ss" by simp
    show ?thesis
    proof (cases "map_of es s")
      case None
      with "4.prems"(1) have "fs' = Dir (AList.update s (newDirs ss) es)" by simp
      with None True q np show ?thesis by (simp add: lookup_newDirs)
    next
      case (Some ch)
      with "4.prems"(1) obtain ch' where c: "mkdirAt ch ss = Inr ch'" and f: "fs' = Dir (AList.update s ch' es)"
        by (auto split: sum.splits)
      from "4.IH" [OF Some c np] f Some True q show ?thesis by simp
    qed
  qed
qed simp_all

lemma putAt_lookup: "putAt fs p new = Inr fs' \<Longrightarrow> lookup fs' p = Some new"
proof (induction fs p new arbitrary: fs' rule: putAt.induct)
  case (3 es s ss new)
  show ?case
  proof (cases "ss = []")
    case True
    with "3.prems" show ?thesis by auto
  next
    case False
    with "3.prems" obtain ch ch' where m: "map_of es s = Some ch" and c: "putAt ch ss new = Inr ch'"
      and f: "fs' = Dir (AList.update s ch' es)"
      by (auto split: option.splits sum.splits)
    from "3.IH" [OF False m c] f show ?thesis by simp
  qed
qed simp_all

lemma putAt_elsewhere:
  "putAt fs p new = Inr fs' \<Longrightarrow> \<not> prefix q p \<Longrightarrow> \<not> prefix p q \<Longrightarrow> lookup fs' q = lookup fs q"
proof (induction fs p new arbitrary: fs' q rule: putAt.induct)
  case (3 es s ss new)
  from "3.prems"(2) obtain t ts where q: "q = t # ts" by (cases q) auto
  show ?case
  proof (cases "t = s")
    case False
    with "3.prems"(1) q show ?thesis by (auto split: option.splits sum.splits if_splits)
  next
    case True
    with "3.prems"(2,3) q have np: "\<not> prefix ts ss" "\<not> prefix ss ts" by simp_all
    then have ne: "ss \<noteq> []" by auto
    with "3.prems"(1) obtain ch ch' where m: "map_of es s = Some ch" and c: "putAt ch ss new = Inr ch'"
      and f: "fs' = Dir (AList.update s ch' es)"
      by (auto split: option.splits sum.splits)
    from "3.IH" [OF ne m c np] f m True q show ?thesis by simp
  qed
qed simp_all

lemma putAt_ancestor:
  "putAt fs p new = Inr fs' \<Longrightarrow> strict_prefix q p \<Longrightarrow> \<exists>es. lookup fs' q = Some (Dir es)"
proof (induction fs p new arbitrary: fs' q rule: putAt.induct)
  case (3 es s ss new)
  show ?case
  proof (cases q)
    case Nil
    with "3.prems"(1) show ?thesis by (auto split: option.splits sum.splits if_splits)
  next
    case (Cons t ts)
    with "3.prems"(2) have ts: "t = s" "strict_prefix ts ss" by (auto simp: strict_prefix_def)
    then have ne: "ss \<noteq> []" by auto
    with "3.prems"(1) obtain ch ch' where m: "map_of es s = Some ch" and c: "putAt ch ss new = Inr ch'"
      and f: "fs' = Dir (AList.update s ch' es)"
      by (auto split: option.splits sum.splits)
    from "3.IH" [OF ne m c ts(2)] f ts(1) Cons show ?thesis by simp
  qed
qed simp_all

lemma putAt_succeeds:
  "lookup fs d = Some (Dir es) \<Longrightarrow> \<exists>fs'. putAt fs (d @ [n]) new = Inr fs'"
proof (induction d arbitrary: fs)
  case Nil
  then show ?case by simp
next
  case (Cons s ss)
  then obtain es0 ch where fs: "fs = Dir es0" and m: "map_of es0 s = Some ch"
    and l: "lookup ch ss = Some (Dir es)"
    by (cases fs) (auto split: option.splits)
  from Cons.IH [OF l] obtain ch' where "putAt ch (ss @ [n]) new = Inr ch'" by blast
  then show ?case using fs m by simp
qed

section \<open>Facts about uploads\<close>

lemma not_fileNameChar_sep: "\<not> isFileNameChar (CHR ''/'')" "\<not> isFileNameChar (CHR 0x5C)"
  by (simp_all add: isFileNameChar_def isLower_def isUpper_def isDigit_def codeOf_def)

lemma plainFileName_clean: "plainFileName n \<Longrightarrow> cleanSeg n"
  using not_fileNameChar_sep(1) by (auto simp: plainFileName_def cleanSeg_def list_all_iff)

lemma sanitizeFileName_plain: "plainFileName n \<Longrightarrow> sanitizeFileName n = Inr n"
  by (simp add: plainFileName_def sanitizeFileName_def filter_id_list_all)

lemma sanitizeRelativePath_plain:
  assumes "plainFileName n"
  shows "sanitizeRelativePath n = Inr n"
proof -
  have "\<forall>c\<in>set n. \<not> (c = CHR ''/'' \<or> c = CHR 0x5C)"
    using assms not_fileNameChar_sep by (auto simp: plainFileName_def list_all_iff)
  then have "splitWhen (\<lambda>c. c = CHR ''/'' \<or> c = CHR 0x5C) n = [n]"
    by (rule splitWhen_no_sep)
  then show ?thesis
    using assms sanitizeFileName_plain [OF assms]
    by (simp add: sanitizeRelativePath_def plainFileName_def)
qed

lemma splitWhen_chars: "\<forall>x\<in>set (splitWhen sep s). set x \<subseteq> set s"
proof (induction s)
  case Nil
  then show ?case by simp
next
  case (Cons a s)
  show ?case
  proof (cases "splitWhen sep s")
    case Nil
    then show ?thesis by auto
  next
    case (Cons w ws)
    with Cons.IH have "set w \<subseteq> set s" "\<forall>x\<in>set ws. set x \<subseteq> set s" by simp_all
    with Cons show ?thesis by auto
  qed
qed

lemma sanitizeRelativePath_invalid:
  assumes "\<forall>c\<in>set n. \<not> isFileNameChar c"
  shows "\<exists>err. sanitizeRelativePath n = Inl err"
proof (cases "n = [] \<or> filter (\<lambda>s. s \<noteq> []) (splitWhen (\<lambda>c. c = CHR ''/'' \<or> c = CHR 0x5C) n) = []")
  case True
  then show ?thesis by (auto simp: sanitizeRelativePath_def)
next
  case False
  let ?segs = "filter (\<lambda>s. s \<noteq> []) (splitWhen (\<lambda>c. c = CHR ''/'' \<or> c = CHR 0x5C) n)"
  from False obtain s rest where sr: "?segs = s # rest" by (cases ?segs) auto
  then have "s \<in> set ?segs" by simp
  then have "s \<in> set (splitWhen (\<lambda>c. c = CHR ''/'' \<or> c = CHR 0x5C) n)"
    by simp
  then have "set s \<subseteq> set n" using splitWhen_chars by blast
  then have "filter isFileNameChar s = []"
    using assms by (auto simp: filter_empty_conv)
  then have "\<exists>err. sanitizeFileName s = Inl err"
    by (simp add: sanitizeFileName_def)
  then have "\<exists>err. sanitizeSegments (s # rest) = Inl err"
    by auto
  then show ?thesis
    using False sr by (auto simp: sanitizeRelativePath_def Let_def)
qed

lemma joinSlash_splitSlash: "joinSlash (splitSlash s) = s"
proof (induction s)
  case Nil
  then show ?case by simp
next
  case (Cons x xs)
  obtain w ws where sp: "splitSlash xs = w # ws"
    using splitWhen_nonempty [of "\<lambda>c. c = CHR ''/''" xs] by (cases "splitSlash xs") (auto simp: splitSlash_def)
  show ?case
  proof (cases "x = CHR ''/''")
    case True
    then have "splitSlash (x # xs) = [] # splitSlash xs" by (simp add: splitSlash_def)
    then show ?thesis using Cons sp True by (simp add: joinSlash_Cons)
  next
    case False
    then have "splitSlash (x # xs) = (x # w) # ws"
      using sp by (simp add: splitSlash_def)
    then show ?thesis using Cons sp by (cases ws) (simp_all add: joinSlash_def)
  qed
qed

lemma uploadOne_invalid:
  "\<forall>c\<in>set (fileName f). \<not> isFileNameChar c \<Longrightarrow> \<exists>err. uploadOne e vt sd fs f = (fs, Inl err)"
  using sanitizeRelativePath_invalid [of "fileName f"] by (auto simp: uploadOne_def)

lemma uploadLoop_invalid:
  "\<forall>c\<in>set (fileName f). \<not> isFileNameChar c \<Longrightarrow>
     uploadLoop e vt sd fs acc (f # fs') = uploadLoop e vt sd fs acc fs'"
  using uploadOne_invalid [of f e vt sd fs] by auto

lemma uploadLoop_append:
  "uploadLoop e vt sd fs acc (xs @ ys) =
     (case uploadLoop e vt sd fs acc xs of (fs', acc') \<Rightarrow> uploadLoop e vt sd fs' acc' ys)"
  by (induction xs arbitrary: fs acc) (auto split: prod.splits sum.splits)

lemma uploadLoop_skip:
  "\<forall>c\<in>set (fileName f). \<not> isFileNameChar c \<Longrightarrow>
     uploadLoop e vt sd fs acc (xs @ f # ys) = uploadLoop e vt sd fs acc (xs @ ys)"
  by (cases "uploadLoop e vt sd fs acc xs")
    (simp add: uploadLoop_append uploadLoop_invalid del: uploadLoop.simps)

lemma join_clean:
  assumes d: "list_all cleanSeg d" and n: "cleanSeg n"
  shows "join [absPath d, n] = absPath (d @ [n])"
proof -
  from n have "n \<noteq> []" "CHR ''/'' \<notin> set n" by (auto simp: cleanSeg_def)
  then have l: "last n \<noteq> CHR ''/''" by (metis last_in_set)
  have "splitSlash n = [n]" using \<open>CHR ''/'' \<notin> set n\<close> by (rule splitSlash_single)
  then show ?thesis
    using join_absPath [OF d \<open>n \<noteq> []\<close>] l n by (simp add: Let_def cleanSeg_def)
qed

text \<open>One valid file, written into a target directory that exists.\<close>

lemma uploadOne_plain:
  assumes d: "list_all cleanSeg d" "d \<noteq> []" and t: "list_all cleanSeg t" "prefix d t"
    and td: "lookup fs t = Some (Dir es)"
    and p: "plainFileName (fileName f)"
    and nd: "\<not> isDirectoryAt e fs (absPath (t @ [fileName f]))"
  shows "\<exists>fs'. uploadOne e (absPath t) (absPath d) fs f = (fs', Inr (fileName f))
          \<and> lookup fs' (t @ [fileName f]) = Some (File (fileData f))
          \<and> (\<exists>es'. lookup fs' t = Some (Dir es'))
          \<and> (\<forall>q. \<not> prefix q (t @ [fileName f]) \<and> \<not> prefix (t @ [fileName f]) q \<longrightarrow> lookup fs' q = lookup fs q)"
proof -
  let ?n = "fileName f"
  have c: "cleanSeg ?n" using p by (rule plainFileName_clean)
  have tn: "list_all cleanSeg (t @ [?n])" using t(1) c by simp
  have j: "join [absPath t, ?n] = absPath (t @ [?n])"
    using t(1) c by (rule join_clean)
  have "resolvedSegs d (absPath (t @ [?n])) = t @ [?n]"
    using tn by (simp add: resolvedSegs_def normalizeString_absPath)
  then have v: "validateSkillPath e (absPath (t @ [?n])) (absPath d) = Inr (absPath (t @ [?n]))"
    using validateSkillPath_segs [OF d, of e "absPath (t @ [?n])"] t(2) by simp
  have dir: "dirname (absPath (t @ [?n])) = absPath t"
    using c t(1) by (rule dirname_absPath_snoc)
  have mk: "mkdirRecursive e fs (absPath t) = Inr fs"
    using t(1) mkdirAt_existing [OF td] by (simp add: mkdirRecursive_def)
  from putAt_succeeds [OF td, of ?n "File (fileData f)"]
  obtain fs' where put: "putAt fs (t @ [?n]) (File (fileData f)) = Inr fs'" by blast
  have wr: "writeFile e fs (absPath (t @ [?n])) (fileData f) = Inr fs'"
    using nd tn put by (auto simp: writeFile_def isDirectoryAt_def split: option.splits node.splits)
  have "uploadOne e (absPath t) (absPath d) fs f = (fs', Inr ?n)"
    by (simp add: uploadOne_def sanitizeRelativePath_plain [OF p] j v dir mk wr joinSlash_splitSlash)
  moreover have "lookup fs' (t @ [?n]) = Some (File (fileData f))"
    using put by (rule putAt_lookup)
  moreover have "\<exists>es'. lookup fs' t = Some (Dir es')"
    using put by (rule putAt_ancestor) (simp add: strict_prefix_def)
  moreover have "\<forall>q. \<not> prefix q (t @ [?n]) \<and> \<not> prefix (t @ [?n]) q \<longrightarrow> lookup fs' q = lookup fs q"
    using putAt_elsewhere [OF put] by blast
  ultimately show ?thesis by blast
qed

lemma snoc_neither_prefix:
  "a \<noteq> b \<Longrightarrow> \<not> prefix (t @ [a]) (t @ [b]) \<and> \<not> prefix (t @ [b]) (t @ [a])"
  by auto

section \<open>Facts about imports\<close>

lemma lookup_append:
  "lookup fs (p @ r) = (case lookup fs p of None \<Rightarrow> None | Some n \<Rightarrow> lookup n r)"
proof (induction p arbitrary: fs)
  case Nil
  then show ?case by simp
next
  case (Cons s ss)
  then show ?case by (cases fs) (auto split: option.splits)
qed

lemma lookup_file_below: "lookup fs p = Some (File c) \<Longrightarrow> r \<noteq> [] \<Longrightarrow> lookup fs (p @ r) = None"
  by (cases r) (simp_all add: lookup_append)

lemma mkdirAt_ancestors:
  "mkdirAt fs p = Inr fs' \<Longrightarrow> prefix q p \<Longrightarrow> lookup fs q \<noteq> Some (File c)"
proof (induction fs p arbitrary: fs' q rule: mkdirAt.induct)
  case (4 es s ss)
  show ?case
  proof (cases q)
    case Nil
    then show ?thesis by simp
  next
    case (Cons t ts)
    with "4.prems"(2) have ts: "t = s" "prefix ts ss" by simp_all
    show ?thesis
    proof (cases "map_of es s")
      case None
      with ts Cons show ?thesis by simp
    next
      case (Some ch)
      with "4.prems"(1) obtain ch' where c: "mkdirAt ch ss = Inr ch'"
        by (auto split: sum.splits)
      from "4.IH" [OF Some c ts(2)] Some ts(1) Cons show ?thesis by simp
    qed
  qed
qed auto

lemma mkdirAt_keeps_files:
  assumes "mkdirAt fs p = Inr fs'" and "lookup fs q = Some (File c)"
  shows "lookup fs' q = Some (File c)"
proof (cases "prefix q p")
  case True
  with mkdirAt_ancestors [OF assms(1) True, of c] assms(2) show ?thesis by simp
next
  case False
  with mkdirAt_elsewhere [OF assms(1) False] assms(2) show ?thesis by simp
qed

lemma putAt_old_ancestor:
  "putAt fs p new = Inr fs' \<Longrightarrow> strict_prefix q p \<Longrightarrow> \<exists>es. lookup fs q = Some (Dir es)"
proof (induction fs p new arbitrary: fs' q rule: putAt.induct)
  case (3 es s ss new)
  show ?case
  proof (cases q)
    case Nil
    then show ?thesis by simp
  next
    case (Cons t ts)
    with "3.prems"(2) have ts: "t = s" "strict_prefix ts ss" by (auto simp: strict_prefix_def)
    then have ne: "ss \<noteq> []" by auto
    with "3.prems"(1) obtain ch ch' where m: "map_of es s = Some ch" and c: "putAt ch ss new = Inr ch'"
      by (auto split: option.splits sum.splits)
    from "3.IH" [OF ne m c ts(2)] m ts(1) Cons show ?thesis by simp
  qed
qed simp_all

lemma putAt_keeps_files:
  assumes put: "putAt fs p new = Inr fs'" and absent: "lookup fs p = None"
    and f: "lookup fs q = Some (File c)"
  shows "lookup fs' q = Some (File c)"
proof -
  have 1: "\<not> prefix p q"
  proof
    assume "prefix p q"
    then obtain r where "q = p @ r" by (auto simp: prefix_def)
    with absent f show False by (simp add: lookup_append)
  qed
  have 2: "\<not> prefix q p"
  proof
    assume pq: "prefix q p"
    with 1 have "strict_prefix q p" by (auto simp: strict_prefix_def)
    from putAt_old_ancestor [OF put this] f show False by auto
  qed
  from putAt_elsewhere [OF put 2 1] f show ?thesis by simp
qed

lemma codeOf_digitChar: "d < 10 \<Longrightarrow> codeOf (digitChar d) = 48 + d"
  by (simp add: codeOf_def digitChar_def)

lemma isDigit_digitChar: "d < 10 \<Longrightarrow> isDigit (digitChar d)"
  by (simp add: isDigit_def codeOf_digitChar)

lemma showNat_digits: "list_all isDigit (showNat n)"
proof (induction n rule: showNat.induct)
  case (1 n)
  show ?case
  proof (cases "n < 10")
    case True
    then show ?thesis by (subst showNat.simps) (simp add: isDigit_digitChar)
  next
    case False
    then show ?thesis
      using 1 by (subst showNat.simps) (simp add: isDigit_digitChar)
  qed
qed

lemma showNat_nonempty: "showNat n \<noteq> []"
  by (subst showNat.simps) simp

lemma skillNameChar_not_special:
  "isSkillNameChar c \<Longrightarrow> c \<noteq> CHR ''/'' \<and> c \<noteq> CHR ''.''"
  by (auto simp: isSkillNameChar_def isLower_def isDigit_def codeOf_def)

lemma skillName_clean: "s \<noteq> [] \<Longrightarrow> list_all isSkillNameChar s \<Longrightarrow> cleanSeg s"
  using skillNameChar_not_special by (cases s) (auto simp: cleanSeg_def list_all_iff)

lemma slotName_clean:
  assumes "n \<noteq> []" and "list_all isSkillNameChar n"
  shows "cleanSeg (slotName n j)"
proof (rule skillName_clean)
  show "slotName n j \<noteq> []" using assms(1) by (simp add: slotName_def)
  have "list_all isSkillNameChar (showNat j)"
    using showNat_digits [of j] by (auto simp: list_all_iff isSkillNameChar_def)
  then show "list_all isSkillNameChar (slotName n j)"
    using assms(2) by (simp add: slotName_def isSkillNameChar_def)
qed

lemma findFreeSlot_finds:
  assumes "\<forall>j. i \<le> j \<and> j < k \<longrightarrow> slotTaken e fs n j" and "\<not> slotTaken e fs n k" and "i \<le> k"
  shows "findFreeSlot e fs (getSkillsDir e) n (slotName n i) (join [getSkillsDir e, slotName n i]) (i + 1)
           = Some (slotName n k, join [getSkillsDir e, slotName n k])"
  using assms
proof (induction "k - i" arbitrary: i)
  case 0
  then have "i = k" by simp
  with "0.prems"(2) show ?case
    by (subst findFreeSlot.simps) (simp add: slotTaken_def)
next
  case (Suc m)
  then have lt: "i < k" by simp
  with Suc.prems(1) have t: "slotTaken e fs n i" by simp
  have sn: "n @ ''-'' @ showNat (Suc i) = slotName n (Suc i)"
    by (simp add: slotName_def)
  have "findFreeSlot e fs (getSkillsDir e) n (slotName n (i + 1))
          (join [getSkillsDir e, slotName n (i + 1)]) (i + 1 + 1)
        = Some (slotName n k, join [getSkillsDir e, slotName n k])"
    using Suc.hyps(2) Suc.prems lt by (intro Suc.hyps(1)) auto
  then show ?case
    using t by (subst findFreeSlot.simps) (simp add: slotTaken_def sn del: append.simps)
qed

lemma importedName_chars:
  "importedName e rp = Inr n \<Longrightarrow> n \<noteq> [] \<and> list_all isSkillNameChar n"
  by (auto simp: importedName_def list_all_iff split: sum.splits dest!: sanitizeSkillName_Inr)

lemma readdir_Inr: "readdir e fs p = Inr es \<longleftrightarrow> lookup fs (fsSegs e p) = Some (Dir es)"
  by (auto simp: readdir_def split: option.splits node.splits)

lemma import_at_slot:
  assumes ab: "isAbsolute (userData e)"
    and lib: "readdir e fs (getSkillsDir e) = Inr entries"
    and esc: "validateSkillPath e skillPath (getSkillsDir e) = Inl PathEscape"
    and rf: "readFile e fs (resolve (cwd e) skillPath) = Inr content"
    and man: "toLowerCase (basename (resolve (cwd e) skillPath)) = ''skill.md''"
    and name: "importedName e (resolve (cwd e) skillPath) = Inr sanitizedName"
    and taken: "\<forall>j<k. slotTaken e fs sanitizedName j"
    and free: "\<not> slotTaken e fs sanitizedName k"
    and mk: "mkdirRecursive e fs (join [getSkillsDir e, slotName sanitizedName k]) = Inr fs1"
  shows "\<exists>fs'. load_skill e fs skillPath =
             Some (Success \<lparr>skillContent = content,
                     skillResolvedPath = join [join [getSkillsDir e, slotName sanitizedName k], ''SKILL.md''],
                     imported = True, skillName = Some (slotName sanitizedName k)\<rparr>, fs')
           \<and> readFile e fs' (join [join [getSkillsDir e, slotName sanitizedName k], ''SKILL.md''])
               = Inr content
           \<and> load_skill e fs' (join [join [getSkillsDir e, slotName sanitizedName k], ''SKILL.md'']) =
               Some (Success \<lparr>skillContent = content,
                       skillResolvedPath = join [join [getSkillsDir e, slotName sanitizedName k], ''SKILL.md''],
                       imported = False, skillName = None\<rparr>, fs')
           \<and> (\<forall>p c. readFile e fs p = Inr c \<longrightarrow> readFile e fs' p = Inr c)
           \<and> isDirectoryAt e fs' (join [getSkillsDir e, slotName sanitizedName k])"
proof -
  let ?sd = "getSkillsDir e"
  let ?ks = "fsSegs e ?sd"
  let ?slot = "slotName sanitizedName k"
  let ?rp = "resolve (cwd e) skillPath"
  note k = skillsDir_resolved(1) [OF ab] skillsDir_resolved(2) [OF ab, of "cwd e"]
    skillsDir_resolved(3) [OF ab]
  note b = resolved_base [OF k, of e]
  from importedName_chars [OF name] have n: "sanitizedName \<noteq> []" "list_all isSkillNameChar sanitizedName"
    by simp_all
  have cs: "cleanSeg ?slot" using n by (rule slotName_clean)
  have cm: "cleanSeg ''SKILL.md''" by (rule cleanSeg_SKILL)
  have ck: "list_all cleanSeg (?ks @ [?slot])" using b(2) cs by simp
  have ct: "list_all cleanSeg ((?ks @ [?slot]) @ [''SKILL.md''])" using ck cm by simp
  have jd: "join [?sd, ?slot] = absPath (?ks @ [?slot])"
    using join_clean [OF b(2) cs] b(1) by simp
  have jt': "join [absPath (?ks @ [?slot]), ''SKILL.md''] = absPath ((?ks @ [?slot]) @ [''SKILL.md''])"
    using ck cm by (rule join_clean)
  have jt: "join [join [?sd, ?slot], ''SKILL.md''] = absPath ((?ks @ [?slot]) @ [''SKILL.md''])"
    using jt' jd by simp
  let ?target = "absPath ((?ks @ [?slot]) @ [''SKILL.md''])"
  let ?tsegs = "(?ks @ [?slot]) @ [''SKILL.md'']"
  \<comment> \<open>the library exists, so creating it changes nothing\<close>
  have ld: "lookup fs ?ks = Some (Dir entries)"
    using lib by (simp add: readdir_Inr)
  have mk0: "mkdirRecursive e fs ?sd = Inr fs"
    using mkdirAt_existing [OF ld] by (simp add: mkdirRecursive_def)
  \<comment> \<open>the loop\<close>
  have loop: "findFreeSlot e fs ?sd sanitizedName sanitizedName (join [?sd, sanitizedName]) (Suc 0)
      = Some (?slot, join [?sd, ?slot])"
    using findFreeSlot_finds [of 0 k e fs sanitizedName] taken free
    by (simp add: slotName_def)
  \<comment> \<open>the bundle directory and the manifest\<close>
  have m1: "mkdirAt fs (?ks @ [?slot]) = Inr fs1"
    using mk ck by (simp add: jd mkdirRecursive_def)
  from mkdirAt_directory [OF m1] obtain es1 where d1: "lookup fs1 (?ks @ [?slot]) = Some (Dir es1)"
    by blast
  have absent: "lookup fs ?tsegs = None"
    using free ct by (simp add: slotTaken_def jt existsSync_def)
  have absent1: "lookup fs1 ?tsegs = None"
    using mkdirAt_elsewhere [OF m1, of ?tsegs] absent by simp
  from putAt_succeeds [OF d1, of "''SKILL.md''" "File (utf8Encode content)"]
  obtain fs2 where put: "putAt fs1 ?tsegs (File (utf8Encode content)) = Inr fs2" by blast
  have wr: "writeFile e fs1 ?target (utf8Encode content) = Inr fs2"
    using absent1 put ct by (simp add: writeFile_def)
  have ex: "existsSync e fs ?rp" using rf by (rule readFile_exists)
  have imp: "importSkill e fs ?sd skillPath =
      Some (Inr \<lparr>skillContent = content, skillResolvedPath = ?target,
                 imported = True, skillName = Some ?slot\<rparr>, fs2)"
    using ex man mk wr by (simp add: importSkill_def Let_def rf name loop jt' jd)
  have res: "load_skill e fs skillPath =
      Some (Success \<lparr>skillContent = content, skillResolvedPath = ?target,
                     imported = True, skillName = Some ?slot\<rparr>, fs2)"
    by (simp add: load_skill_def Let_def mk0 esc imp)
  \<comment> \<open>afterwards\<close>
  have l2: "lookup fs2 ?tsegs = Some (File (utf8Encode content))"
    using put by (rule putAt_lookup)
  have rd: "readFile e fs2 ?target = Inr content"
    using l2 ct by (simp add: readFile_def utf8Decode_utf8Encode)
  have "strict_prefix ?ks ?tsegs" by (simp add: strict_prefix_def)
  from putAt_ancestor [OF put this] obtain es2 where "lookup fs2 ?ks = Some (Dir es2)" by blast
  then have mk2: "mkdirRecursive e fs2 ?sd = Inr fs2"
    using mkdirAt_existing by (simp add: mkdirRecursive_def)
  have "resolvedSegs ?ks ?target = ?tsegs"
    using ct by (simp add: resolvedSegs_def normalizeString_absPath)
  then have va: "validateSkillPath e ?target ?sd = Inr ?target"
    using validateSkillPath_segs [OF b(2,3), of e ?target] b(1) by simp
  have again: "load_skill e fs2 ?target =
      Some (Success \<lparr>skillContent = content, skillResolvedPath = ?target,
                     imported = False, skillName = None\<rparr>, fs2)"
    using readFile_exists [OF rd] va rd by (simp add: load_skill_def Let_def mk2)
  have keep: "readFile e fs2 p = Inr c" if "readFile e fs p = Inr c" for p c
  proof -
    from that obtain b where "lookup fs (fsSegs e p) = Some (File b)" and c: "c = utf8Decode b"
      by (auto simp: readFile_Inr)
    then have "lookup fs1 (fsSegs e p) = Some (File b)"
      using mkdirAt_keeps_files [OF m1] by blast
    then have "lookup fs2 (fsSegs e p) = Some (File b)"
      using putAt_keeps_files [OF put absent1] by blast
    then show ?thesis using c by (simp add: readFile_File)
  qed
  have "strict_prefix (?ks @ [?slot]) ?tsegs" by (simp add: strict_prefix_def)
  from putAt_ancestor [OF put this] obtain es3 where "lookup fs2 (?ks @ [?slot]) = Some (Dir es3)"
    by blast
  then have dir: "isDirectoryAt e fs2 (absPath (?ks @ [?slot]))"
    using ck by (simp add: isDirectoryAt_def)
  from res rd again keep dir show ?thesis
    unfolding jd jt' by blast
qed

lemma mkdirAt_file: "lookup fs p = Some (File c) \<Longrightarrow> mkdirAt fs p = Inl ''EEXIST''"
proof (induction fs p rule: mkdirAt.induct)
  case (4 es s ss)
  then show ?case by (auto split: option.splits)
qed simp_all

lemma import_at_file:
  assumes ab: "isAbsolute (userData e)"
    and lib: "readdir e fs (getSkillsDir e) = Inr entries"
    and esc: "validateSkillPath e skillPath (getSkillsDir e) = Inl PathEscape"
    and rf: "readFile e fs (resolve (cwd e) skillPath) = Inr content"
    and man: "toLowerCase (basename (resolve (cwd e) skillPath)) = ''skill.md''"
    and name: "importedName e (resolve (cwd e) skillPath) = Inr sanitizedName"
    and taken: "\<forall>j<k. slotTaken e fs sanitizedName j"
    and free: "\<not> slotTaken e fs sanitizedName k"
    and ex: "existsSync e fs (join [getSkillsDir e, slotName sanitizedName k])"
    and nd: "\<not> isDirectoryAt e fs (join [getSkillsDir e, slotName sanitizedName k])"
  shows "load_skill e fs skillPath =
           Some (Failure
                   (if sysMessage e ''EEXIST'' ''mkdir'' [join [getSkillsDir e, slotName sanitizedName k]] = []
                    then ''Failed to load skill''
                    else sysMessage e ''EEXIST'' ''mkdir'' [join [getSkillsDir e, slotName sanitizedName k]]),
                 fs)"
proof -
  let ?sd = "getSkillsDir e"
  let ?ks = "fsSegs e ?sd"
  let ?slot = "slotName sanitizedName k"
  note k = skillsDir_resolved(1) [OF ab] skillsDir_resolved(2) [OF ab, of "cwd e"]
    skillsDir_resolved(3) [OF ab]
  note b = resolved_base [OF k, of e]
  from importedName_chars [OF name] have n: "sanitizedName \<noteq> []" "list_all isSkillNameChar sanitizedName"
    by simp_all
  have cs: "cleanSeg ?slot" using n by (rule slotName_clean)
  have ck: "list_all cleanSeg (?ks @ [?slot])" using b(2) cs by simp
  have jd: "join [?sd, ?slot] = absPath (?ks @ [?slot])"
    using join_clean [OF b(2) cs] b(1) by simp
  have ld: "lookup fs ?ks = Some (Dir entries)"
    using lib by (simp add: readdir_Inr)
  have mk0: "mkdirRecursive e fs ?sd = Inr fs"
    using mkdirAt_existing [OF ld] by (simp add: mkdirRecursive_def)
  have loop: "findFreeSlot e fs ?sd sanitizedName sanitizedName (join [?sd, sanitizedName]) (Suc 0)
      = Some (?slot, join [?sd, ?slot])"
    using findFreeSlot_finds [of 0 k e fs sanitizedName] taken free
    by (simp add: slotName_def)
  from ex nd obtain c where "lookup fs (?ks @ [?slot]) = Some (File c)"
    using ck by (auto simp: jd existsSync_def isDirectoryAt_def split: option.splits node.splits)
  then have "mkdirAt fs (?ks @ [?slot]) = Inl ''EEXIST''" by (rule mkdirAt_file)
  then have mk: "mkdirRecursive e fs (absPath (?ks @ [?slot]))
      = Inl (SysError ''EEXIST'' ''mkdir'' [absPath (?ks @ [?slot])])"
    using ck by (simp add: mkdirRecursive_def)
  have exm: "existsSync e fs (resolve (cwd e) skillPath)" using rf by (rule readFile_exists)
  have imp: "importSkill e fs ?sd skillPath =
      Some (Inl (SysError ''EEXIST'' ''mkdir'' [absPath (?ks @ [?slot])]), fs)"
    using exm man mk by (simp add: importSkill_def Let_def rf name loop jd)
  show ?thesis
    by (simp add: load_skill_def Let_def mk0 esc imp jd)
qed

lemma load_skill_root:
  assumes "mkdirRecursive e fs (getSkillsDir e) = Inr fs0"
  shows "load_skill e fs skillPath = load_skill e fs0 skillPath"
    and "\<exists>entries. readdir e fs0 (getSkillsDir e) = Inr entries"
    and "readFile e fs p = Inr c \<Longrightarrow> readFile e fs0 p = Inr c"
proof -
  from assms have m: "mkdirAt fs (fsSegs e (getSkillsDir e)) = Inr fs0"
    by (simp add: mkdirRecursive_def)
  from mkdirAt_directory [OF m] obtain es where d: "lookup fs0 (fsSegs e (getSkillsDir e)) = Some (Dir es)"
    by blast
  then show "\<exists>entries. readdir e fs0 (getSkillsDir e) = Inr entries"
    by (simp add: readdir_Inr)
  have "mkdirRecursive e fs0 (getSkillsDir e) = Inr fs0"
    using mkdirAt_existing [OF d] by (simp add: mkdirRecursive_def)
  then show "load_skill e fs skillPath = load_skill e fs0 skillPath"
    using assms by (simp add: load_skill_def Let_def)
  show "readFile e fs0 p = Inr c" if "readFile e fs p = Inr c"
  proof -
    from that obtain b where "lookup fs (fsSegs e p) = Some (File b)" and c: "c = utf8Decode b"
      by (auto simp: readFile_Inr)
    then have "lookup fs0 (fsSegs e p) = Some (File b)"
      using mkdirAt_keeps_files [OF m] by blast
    then show ?thesis using c by (simp add: readFile_File)
  qed
qed

lemma digit_value: "d < 10 \<Longrightarrow> codeOf (digitChar d) - 48 = d"
  by (simp add: codeOf_digitChar)

lemma showNat_value: "foldl (\<lambda>a c. 10 * a + (codeOf c - 48)) 0 (showNat n) = n"
proof (induction n rule: showNat.induct)
  case (1 n)
  show ?case
  proof (cases "n < 10")
    case True
    then show ?thesis by (subst showNat.simps) (simp add: digit_value)
  next
    case False
    then have "foldl (\<lambda>a c. 10 * a + (codeOf c - 48)) 0 (showNat (n div 10)) = n div 10"
      using 1 by simp
    then show ?thesis
      using False by (subst showNat.simps) (simp add: digit_value)
  qed
qed

lemma showNat_inj: "showNat i = showNat j \<Longrightarrow> i = j"
  by (metis showNat_value)

lemma slotName_inj: "slotName n i = slotName n j \<Longrightarrow> i = j"
proof (cases "i = 0 \<or> j = 0")
  case True
  assume "slotName n i = slotName n j"
  then have "length (slotName n i) = length (slotName n j)" by simp
  with True show ?thesis by (auto simp: slotName_def split: if_splits)
next
  case False
  assume "slotName n i = slotName n j"
  with False have "showNat i = showNat j" by (simp add: slotName_def)
  then show ?thesis by (rule showNat_inj)
qed

lemma slotTaken_entry:
  assumes ab: "isAbsolute (userData e)" and lib: "readdir e fs (getSkillsDir e) = Inr entries"
    and n: "n \<noteq> []" "list_all isSkillNameChar n"
    and t: "slotTaken e fs n j"
  shows "slotName n j \<in> fst ` set entries"
proof -
  let ?ks = "fsSegs e (getSkillsDir e)"
  note k = skillsDir_resolved(1) [OF ab] skillsDir_resolved(2) [OF ab, of "cwd e"]
    skillsDir_resolved(3) [OF ab]
  note b = resolved_base [OF k, of e]
  have cs: "cleanSeg (slotName n j)" using n by (rule slotName_clean)
  have ck: "list_all cleanSeg (?ks @ [slotName n j])" using b(2) cs by simp
  have ct: "list_all cleanSeg ((?ks @ [slotName n j]) @ [''SKILL.md''])"
    using ck cleanSeg_SKILL by simp
  have "join [join [getSkillsDir e, slotName n j], ''SKILL.md'']
      = absPath ((?ks @ [slotName n j]) @ [''SKILL.md''])"
    using join_clean [OF b(2) cs] join_clean [OF ck cleanSeg_SKILL] b(1) by simp
  then have "lookup fs (?ks @ [slotName n j, ''SKILL.md'']) \<noteq> None"
    using t ct by (simp add: slotTaken_def existsSync_def)
  moreover have "lookup fs ?ks = Some (Dir entries)"
    using lib by (simp add: readdir_Inr)
  ultimately have "map_of entries (slotName n j) \<noteq> None"
    by (auto simp: lookup_append split: option.splits)
  then show ?thesis
    by (simp add: map_of_eq_None_iff)
qed

lemma free_slot_exists:
  assumes ab: "isAbsolute (userData e)" and lib: "readdir e fs (getSkillsDir e) = Inr entries"
    and n: "n \<noteq> []" "list_all isSkillNameChar n"
  shows "\<exists>k. (\<forall>j<k. slotTaken e fs n j) \<and> \<not> slotTaken e fs n k"
proof -
  have "\<exists>k. \<not> slotTaken e fs n k"
  proof (rule ccontr)
    assume "\<not> (\<exists>k. \<not> slotTaken e fs n k)"
    then have all: "\<And>j. slotTaken e fs n j" by simp
    have sub: "slotName n ` {0..length entries} \<subseteq> fst ` set entries"
      using slotTaken_entry [OF ab lib n all] by auto
    have "inj_on (slotName n) {0..length entries}"
      by (auto simp: inj_on_def dest: slotName_inj)
    then have "card (slotName n ` {0..length entries}) = length entries + 1"
      by (simp add: card_image)
    moreover have "card (slotName n ` {0..length entries}) \<le> card (fst ` set entries)"
      using sub by (intro card_mono) simp_all
    moreover have "card (fst ` set entries) \<le> length entries"
      by (metis card_image_le card_length le_trans List.finite_set)
    ultimately show False by simp
  qed
  then obtain k where "\<not> slotTaken e fs n k" and "\<forall>j<k. \<not> \<not> slotTaken e fs n j"
    using exists_least_iff [of "\<lambda>k. \<not> slotTaken e fs n k"] by blast
  then show ?thesis by auto
qed

lemma mkdirAt_child:
  "lookup fs d = Some (Dir es) \<Longrightarrow> (\<forall>c. lookup fs (d @ [n]) \<noteq> Some (File c)) \<Longrightarrow>
     \<exists>fs1. mkdirAt fs (d @ [n]) = Inr fs1"
proof (induction d arbitrary: fs)
  case Nil
  then have fs: "fs = Dir es" by simp
  show ?case
  proof (cases "map_of es n")
    case None
    with fs show ?thesis by simp
  next
    case (Some ch)
    with Nil.prems(2) fs have "\<forall>c. ch \<noteq> File c" by simp
    then obtain es' where "ch = Dir es'" by (cases ch) simp_all
    with Some fs show ?thesis by simp
  qed
next
  case (Cons s ss)
  then obtain es0 ch where fs: "fs = Dir es0" and m: "map_of es0 s = Some ch"
    and l: "lookup ch ss = Some (Dir es)"
    by (cases fs) (auto split: option.splits)
  from Cons.prems(2) fs m have "\<forall>c. lookup ch (ss @ [n]) \<noteq> Some (File c)" by simp
  from Cons.IH [OF l this] obtain ch' where "mkdirAt ch (ss @ [n]) = Inr ch'" by blast
  then show ?case using fs m by simp
qed

lemma import_slot_mkdir:
  assumes ab: "isAbsolute (userData e)"
    and lib: "readdir e fs (getSkillsDir e) = Inr entries"
    and n: "sanitizedName \<noteq> []" "list_all isSkillNameChar sanitizedName"
    and ok: "existsSync e fs (join [getSkillsDir e, slotName sanitizedName k])
               \<longrightarrow> isDirectoryAt e fs (join [getSkillsDir e, slotName sanitizedName k])"
  shows "\<exists>fs1. mkdirRecursive e fs (join [getSkillsDir e, slotName sanitizedName k]) = Inr fs1"
proof -
  let ?ks = "fsSegs e (getSkillsDir e)"
  note k = skillsDir_resolved(1) [OF ab] skillsDir_resolved(2) [OF ab, of "cwd e"]
    skillsDir_resolved(3) [OF ab]
  note b = resolved_base [OF k, of e]
  have cs: "cleanSeg (slotName sanitizedName k)" using n by (rule slotName_clean)
  have ck: "list_all cleanSeg (?ks @ [slotName sanitizedName k])" using b(2) cs by simp
  have jd: "join [getSkillsDir e, slotName sanitizedName k] = absPath (?ks @ [slotName sanitizedName k])"
    using join_clean [OF b(2) cs] b(1) by simp
  have ld: "lookup fs ?ks = Some (Dir entries)"
    using lib by (simp add: readdir_Inr)
  have "\<forall>c. lookup fs (?ks @ [slotName sanitizedName k]) \<noteq> Some (File c)"
    using ok ck by (auto simp: jd existsSync_def isDirectoryAt_def)
  from mkdirAt_child [OF ld this]
  obtain fs1 where "mkdirAt fs (?ks @ [slotName sanitizedName k]) = Inr fs1" by blast
  then have "mkdirRecursive e fs (join [getSkillsDir e, slotName sanitizedName k]) = Inr fs1"
    using ck by (simp add: jd mkdirRecursive_def)
  then show ?thesis by blast
qed
section \<open>Bundle names\<close>

text \<open>
  Claim C9.  \<open>sanitizeSkillName\<close> is idempotent: applying it to its own result changes
  nothing (and where it throws there is no result to apply it to); every result matches
  \<^verbatim>\<open>^[a-z0-9-]+$\<close> and is not the reserved name \<^verbatim>\<open>skill\<close>.
\<close>

theorem sanitizeSkillName_idempotent:
  "(case sanitizeSkillName x of Inl e \<Rightarrow> Inl e | Inr y \<Rightarrow> sanitizeSkillName y) = sanitizeSkillName x
   \<and> (\<forall>y. sanitizeSkillName x = Inr y \<longrightarrow> matchesSkillNameRegex y \<and> y \<noteq> ''skill'')"
proof -
  have "matchesSkillNameRegex y \<and> y \<noteq> ''skill''" if a: "sanitizeSkillName x = Inr y" for y
    using sanitizeSkillName_Inr [OF a] by (auto simp: matchesSkillNameRegex_def list_all_iff)
  moreover have "(case sanitizeSkillName x of Inl e \<Rightarrow> Inl e | Inr y \<Rightarrow> sanitizeSkillName y)
      = sanitizeSkillName x"
    by (cases "sanitizeSkillName x") (simp_all add: sanitizeSkillName_fixed)
  ultimately show ?thesis by blast
qed

theorem sanitizeSkillName_idempotent_witness:
  "sanitizeSkillName ''My Skill_2!'' = Inr ''myskill2''
   \<and> sanitizeSkillName ''myskill2'' = Inr ''myskill2''
   \<and> matchesSkillNameRegex ''myskill2'' \<and> ''myskill2'' \<noteq> ''skill''"
proof -
  have a: "sanitizeSkillName ''My Skill_2!'' = Inr ''myskill2''"
    by code_simp
  from sanitizeSkillName_idempotent [of "''My Skill_2!''"] a show ?thesis
    by simp
qed

section \<open>The path sandbox\<close>

lemma normalizeString_no_dotdot:
  "''..'' \<notin> set xs \<Longrightarrow>
     normalizeString a res xs = rev res @ filter (\<lambda>s. s \<noteq> [] \<and> s \<noteq> ''.'') xs"
  by (induction xs arbitrary: res) auto

lemma normalizeString_only_dotdot:
  "\<forall>x\<in>set xs. x = ''..'' \<or> x = ''.'' \<or> x = [] \<Longrightarrow> list_all cleanSeg res \<Longrightarrow>
     length (normalizeString False res xs) = length res - count_list xs ''..''"
proof (induction xs arbitrary: res)
  case Nil
  then show ?case by simp
next
  case (Cons x xs)
  have xs: "\<forall>x\<in>set xs. x = ''..'' \<or> x = ''.'' \<or> x = []"
    using Cons.prems(1) by simp
  show ?case
  proof (cases "x = ''..''")
    case False
    with Cons.prems(1) have "x = ''.'' \<or> x = []" by simp
    then show ?thesis using Cons.IH [OF xs Cons.prems(2)] False by auto
  next
    case True
    show ?thesis
    proof (cases res)
      case Nil
      then show ?thesis using True Cons.IH [OF xs, of "[]"] by simp
    next
      case (Cons t ts)
      then have "cleanSeg t" and ts: "list_all cleanSeg ts"
        using Cons.prems(2) by simp_all
      then have t: "t \<noteq> ''..''" "list_all cleanSeg ts"
        by (simp_all add: cleanSeg_def)
      show ?thesis
        using True Cons t(1) Cons.IH [OF xs t(2)] by simp
    qed
  qed
qed

text \<open>
  Claim C1, as the program has it.  The base directory is an absolute path in resolved form
  other than the root, as every base that the program passes is.  \<open>validateSkillPath\<close>
  throws \<open>PathEscape\<close> exactly when the segments that the requested path resolves to do
  not extend the segments of the base, and every other outcome is a path that is the base or
  starts with the base and a slash.  So a relative path made only of \<^verbatim>\<open>..\<close> segments (one
  at least; \<^verbatim>\<open>.\<close> and empty segments may come with them) is refused, and a relative path
  with no \<^verbatim>\<open>..\<close> segment is accepted, with a result that is the base or extends it after a
  slash.
\<close>

theorem validateSkillPath_sandbox:
  assumes "isAbsolute base" and "resolve (cwd e) base = base" and "base \<noteq> ''/''"
  shows "(validateSkillPath e p base = Inl PathEscape
            \<longleftrightarrow> \<not> prefix (fsSegs e base) (resolvedSegs (fsSegs e base) p))
       \<and> (validateSkillPath e p base \<noteq> Inl PathEscape \<longrightarrow>
            (\<exists>r. validateSkillPath e p base = Inr r \<and> (r = base \<or> startsWith r (base @ ''/''))))
       \<and> (\<not> isAbsolute p \<and> ''..'' \<in> set (splitSlash p)
            \<and> (\<forall>s\<in>set (splitSlash p). s = ''..'' \<or> s = ''.'' \<or> s = []) \<longrightarrow>
            validateSkillPath e p base = Inl PathEscape)
       \<and> (\<not> isAbsolute p \<and> ''..'' \<notin> set (splitSlash p) \<longrightarrow>
            (\<exists>r. validateSkillPath e p base = Inr r \<and> (r = base \<or> startsWith r (base @ ''/''))))"
proof -
  let ?bs = "fsSegs e base"
  let ?r = "resolvedSegs ?bs p"
  note b = resolved_base [OF assms, of e]
  have v: "validateSkillPath e p base = (if prefix ?bs ?r then Inr (absPath ?r) else Inl PathEscape)"
    using validateSkillPath_segs [OF b(2,3), of e p] b(1) by simp
  have w: "absPath ?r = base \<or> startsWith (absPath ?r) (base @ ''/'')" if "prefix ?bs ?r"
    using within_prefix [OF clean_resolvedSegs [OF b(2), of p] b(2,3)] that b(1) by auto
  have one: "validateSkillPath e p base = Inl PathEscape \<longleftrightarrow> \<not> prefix ?bs ?r"
    by (simp add: v)
  have two: "validateSkillPath e p base \<noteq> Inl PathEscape \<longrightarrow>
      (\<exists>r. validateSkillPath e p base = Inr r \<and> (r = base \<or> startsWith r (base @ ''/'')))"
    using w by (auto simp: v)
  have three: "validateSkillPath e p base = Inl PathEscape"
    if rel: "\<not> isAbsolute p" and dd: "''..'' \<in> set (splitSlash p)"
      and only: "\<forall>s\<in>set (splitSlash p). s = ''..'' \<or> s = ''.'' \<or> s = []"
  proof -
    have "length ?r = length ?bs - count_list (splitSlash p) ''..''"
      using rel b(2) normalizeString_only_dotdot [OF only, of "rev ?bs"]
      by (simp add: resolvedSegs_def)
    moreover have "0 < count_list (splitSlash p) ''..''"
      using dd count_list_0_iff [of "splitSlash p" "''..''"] by auto
    ultimately have "length ?r < length ?bs"
      using b(3) by (cases ?bs) auto
    then have "\<not> prefix ?bs ?r"
      by (auto dest: prefix_length_le)
    then show ?thesis by (simp add: v)
  qed
  have four: "\<exists>r. validateSkillPath e p base = Inr r \<and> (r = base \<or> startsWith r (base @ ''/''))"
    if rel: "\<not> isAbsolute p" and nd: "''..'' \<notin> set (splitSlash p)"
  proof -
    have "?r = ?bs @ filter (\<lambda>s. s \<noteq> [] \<and> s \<noteq> ''.'') (splitSlash p)"
      using rel by (simp add: resolvedSegs_def normalizeString_no_dotdot [OF nd])
    then have "prefix ?bs ?r" by simp
    then show ?thesis using w by (auto simp: v)
  qed
  from one two three four show ?thesis by blast
qed

theorem validateSkillPath_sandbox_witness:
  "validateSkillPath sampleEnv ''../../'' ''/u/skills'' = Inl PathEscape
   \<and> \<not> prefix (fsSegs sampleEnv ''/u/skills'')
         (resolvedSegs (fsSegs sampleEnv ''/u/skills'') ''../../'')
   \<and> validateSkillPath sampleEnv ''notes/./todo.txt'' ''/u/skills'' = Inr ''/u/skills/notes/todo.txt''
   \<and> (\<exists>r. validateSkillPath sampleEnv ''notes/./todo.txt'' ''/u/skills'' = Inr r
          \<and> (r = ''/u/skills'' \<or> startsWith r (''/u/skills'' @ ''/'')))"
proof -
  have h: "isAbsolute ''/u/skills''" "resolve (cwd sampleEnv) ''/u/skills'' = ''/u/skills''"
    "''/u/skills'' \<noteq> ''/''"
    by code_simp+
  have a: "\<not> isAbsolute ''../../'' \<and> ''..'' \<in> set (splitSlash ''../../'')
      \<and> (\<forall>s\<in>set (splitSlash ''../../''). s = ''..'' \<or> s = ''.'' \<or> s = [])"
    by code_simp
  have b: "\<not> isAbsolute ''notes/./todo.txt'' \<and> ''..'' \<notin> set (splitSlash ''notes/./todo.txt'')"
    by code_simp
  have c: "validateSkillPath sampleEnv ''notes/./todo.txt'' ''/u/skills'' = Inr ''/u/skills/notes/todo.txt''"
    by code_simp
  from validateSkillPath_sandbox [OF h, of "''../../''"] a
    validateSkillPath_sandbox [OF h, of "''notes/./todo.txt''"] b c
  show ?thesis by blast
qed

text \<open>The claim as the specification words it fails: \<^verbatim>\<open>a/../b\<close> is a relative path with
  a \<^verbatim>\<open>..\<close> segment, and it is accepted, since it resolves inside the base.\<close>

theorem validateSkillPath_traversal_counterexample:
  "\<not> isAbsolute ''a/../b'' \<and> ''..'' \<in> set (splitSlash ''a/../b'')
   \<and> validateSkillPath sampleEnv ''a/../b'' ''/u/skills'' = Inr ''/u/skills/b''"
  by code_simp

section \<open>Protection of the manifest\<close>

text \<open>
  Claim C2, as the program has it.  A bundle is a path that validates inside the library and
  whose directory is not the root of the disk.  Deleting \<^verbatim>\<open>SKILL.md\<close> is refused with the
  message of \<open>ProtectedFile\<close>.  Renaming it is refused with the message of
  \<open>ProtectedFile\<close> for every new name of at most 255 characters that \<open>sanitizeFileName\<close>
  accepts; the new name is sanitized before the manifest is looked at, so for any other new
  name the handler fails with its general message.  In every case the disk is unchanged.
\<close>

theorem manifest_protected:
  assumes ab: "isAbsolute (userData e)" and ne: "skillPath \<noteq> []"
    and v: "validateSkillPath e skillPath (getSkillsDir e) = Inr sp"
    and dn: "dirname sp \<noteq> ''/''"
  shows "delete_file_or_folder e fs skillPath ''SKILL.md''
           = (Failure ''Cannot delete SKILL.md - it is required'', fs)
       \<and> (length newName \<le> 255 \<and> sanitizeFileName newName = Inr sanitized \<longrightarrow>
            rename_file_or_folder e fs skillPath ''SKILL.md'' newName
              = (Failure ''Cannot rename SKILL.md'', fs))
       \<and> snd (rename_file_or_folder e fs skillPath ''SKILL.md'' newName) = fs"
proof -
  let ?d = "fsSegs e (dirname sp)"
  note b = bundle_dir [OF ab v dn]
  have "validateSkillPath e (join [absPath ?d, joinSlash [''SKILL.md'']]) (absPath ?d)
      = Inr (absPath (?d @ [''SKILL.md'']))"
    using b(2,3) by (intro validate_joined_clean) (simp_all add: cleanSeg_SKILL)
  then have j: "validateSkillPath e (join [dirname sp, ''SKILL.md'']) (dirname sp)
      = Inr (absPath (?d @ [''SKILL.md'']))"
    using b(1) by simp
  have bn: "basename (absPath (?d @ [''SKILL.md''])) = ''SKILL.md''"
    using cleanSeg_SKILL by (rule basename_absPath_snoc)
  have del: "delete_file_or_folder e fs skillPath ''SKILL.md''
      = (Failure ''Cannot delete SKILL.md - it is required'', fs)"
    using ne by (simp add: delete_file_or_folder_def Let_def v j bn)
  have ren: "rename_file_or_folder e fs skillPath ''SKILL.md'' newName
      = (Failure ''Cannot rename SKILL.md'', fs)"
    if "length newName \<le> 255" and "sanitizeFileName newName = Inr sanitized"
    using that ne sanitizeFileName_Inr [OF that(2)]
    by (simp add: rename_file_or_folder_def Let_def v j bn)
  have same: "snd (rename_file_or_folder e fs skillPath ''SKILL.md'' newName) = fs"
    by (cases "sanitizeFileName newName")
      (simp_all add: rename_file_or_folder_def Let_def v j bn)
  from del ren same show ?thesis by blast
qed

theorem manifest_protected_witness:
  "delete_file_or_folder sampleEnv sampleDisk ''/u/skills/demo/SKILL.md'' ''SKILL.md''
     = (Failure ''Cannot delete SKILL.md - it is required'', sampleDisk)
   \<and> rename_file_or_folder sampleEnv sampleDisk ''/u/skills/demo/SKILL.md'' ''SKILL.md'' ''X.md''
     = (Failure ''Cannot rename SKILL.md'', sampleDisk)
   \<and> snd (rename_file_or_folder sampleEnv sampleDisk ''/u/skills/demo/SKILL.md'' ''SKILL.md'' ''X.md'')
     = sampleDisk"
proof -
  have h: "isAbsolute (userData sampleEnv)" "''/u/skills/demo/SKILL.md'' \<noteq> []"
    "validateSkillPath sampleEnv ''/u/skills/demo/SKILL.md'' (getSkillsDir sampleEnv)
       = Inr ''/u/skills/demo/SKILL.md''"
    "dirname ''/u/skills/demo/SKILL.md'' \<noteq> ''/''"
    by code_simp+
  have s: "length ''X.md'' \<le> 255 \<and> sanitizeFileName ''X.md'' = Inr ''X.md''"
    by code_simp
  from manifest_protected [OF h, of sampleDisk "''X.md''" "''X.md''"] s show ?thesis
    by simp
qed

text \<open>A new name without a single allowed character: the reply to renaming the manifest
  is the general failure, not \<open>ProtectedFile\<close>.\<close>

theorem manifest_rename_counterexample:
  "validateSkillPath sampleEnv ''/u/skills/demo/SKILL.md'' (getSkillsDir sampleEnv)
     = Inr ''/u/skills/demo/SKILL.md''
   \<and> rename_file_or_folder sampleEnv sampleDisk ''/u/skills/demo/SKILL.md'' ''SKILL.md'' ''###''
     = (Failure ''Failed to rename file or folder'', sampleDisk)
   \<and> \<not> isProtectedFile (Failure ''Failed to rename file or folder'' :: unit reply)"
  by code_simp

section \<open>Importing an external manifest\<close>

text \<open>
  Claim C3.  Let \<^verbatim>\<open>load-skill\<close> take the import path: the library root exists or is created
  (\<open>fs0\<close> is the disk after that step), the requested path lies outside the library and
  names an existing file whose base name is \<^verbatim>\<open>SKILL.md\<close> in any case, and the derived
  bundle name is \<open>sanitizedName\<close>.  Then the loop returns: there is a first candidate, the
  name itself or the name with \<^verbatim>\<open>-1\<close>, \<^verbatim>\<open>-2\<close>, ..., that has no manifest in the library,
  all candidates before it having one.  The directory of that candidate need not be new.
  When no regular file has the candidate's name, the directory is created if it is missing
  and used as it is otherwise: the manifest is copied into it, the reply has
  \<^verbatim>\<open>imported: true\<close>, the candidate as \<^verbatim>\<open>skillName\<close> and the path of the copy, the copy is
  loadable afterwards, and every file that was on the disk is still there with its content.
  When a regular file has the candidate's name, the import fails with the message of the
  failed \<^verbatim>\<open>mkdir\<close>, and nothing is written.
\<close>

theorem import_takes_first_free_slot:
  assumes ab: "isAbsolute (userData e)"
    and root: "mkdirRecursive e fs (getSkillsDir e) = Inr fs0"
    and esc: "validateSkillPath e skillPath (getSkillsDir e) = Inl PathEscape"
    and rf: "readFile e fs (resolve (cwd e) skillPath) = Inr content"
    and man: "toLowerCase (basename (resolve (cwd e) skillPath)) = ''skill.md''"
    and name: "importedName e (resolve (cwd e) skillPath) = Inr sanitizedName"
  shows "\<exists>k.
           (\<forall>j<k. slotTaken e fs0 sanitizedName j) \<and> \<not> slotTaken e fs0 sanitizedName k
           \<and> ((existsSync e fs0 (join [getSkillsDir e, slotName sanitizedName k])
                  \<longrightarrow> isDirectoryAt e fs0 (join [getSkillsDir e, slotName sanitizedName k])) \<longrightarrow>
                (\<exists>fs'.
                   load_skill e fs skillPath =
                     Some (Success \<lparr>skillContent = content,
                             skillResolvedPath =
                               join [join [getSkillsDir e, slotName sanitizedName k], ''SKILL.md''],
                             imported = True, skillName = Some (slotName sanitizedName k)\<rparr>, fs')
                   \<and> isDirectoryAt e fs' (join [getSkillsDir e, slotName sanitizedName k])
                   \<and> readFile e fs' (join [join [getSkillsDir e, slotName sanitizedName k], ''SKILL.md''])
                       = Inr content
                   \<and> load_skill e fs' (join [join [getSkillsDir e, slotName sanitizedName k], ''SKILL.md'']) =
                       Some (Success \<lparr>skillContent = content,
                               skillResolvedPath =
                                 join [join [getSkillsDir e, slotName sanitizedName k], ''SKILL.md''],
                               imported = False, skillName = None\<rparr>, fs')
                   \<and> (\<forall>p c. readFile e fs p = Inr c \<longrightarrow> readFile e fs' p = Inr c)))
           \<and> (existsSync e fs0 (join [getSkillsDir e, slotName sanitizedName k])
                  \<and> \<not> isDirectoryAt e fs0 (join [getSkillsDir e, slotName sanitizedName k]) \<longrightarrow>
                load_skill e fs skillPath =
                  Some (Failure
                          (if sysMessage e ''EEXIST'' ''mkdir''
                                [join [getSkillsDir e, slotName sanitizedName k]] = []
                           then ''Failed to load skill''
                           else sysMessage e ''EEXIST'' ''mkdir''
                                  [join [getSkillsDir e, slotName sanitizedName k]]),
                        fs0))"
proof -
  note r = load_skill_root [OF root]
  from r(2) obtain entries where lib: "readdir e fs0 (getSkillsDir e) = Inr entries" by blast
  from r(3) [OF rf] have rf0: "readFile e fs0 (resolve (cwd e) skillPath) = Inr content" .
  from importedName_chars [OF name] have n: "sanitizedName \<noteq> []" "list_all isSkillNameChar sanitizedName"
    by simp_all
  from free_slot_exists [OF ab lib n] obtain k where
    t: "\<forall>j<k. slotTaken e fs0 sanitizedName j" and f: "\<not> slotTaken e fs0 sanitizedName k"
    by blast
  let ?d = "join [getSkillsDir e, slotName sanitizedName k]"
  let ?t = "join [?d, ''SKILL.md'']"
  have good: "\<exists>fs'.
       load_skill e fs skillPath =
         Some (Success \<lparr>skillContent = content, skillResolvedPath = ?t,
                 imported = True, skillName = Some (slotName sanitizedName k)\<rparr>, fs')
       \<and> isDirectoryAt e fs' ?d
       \<and> readFile e fs' ?t = Inr content
       \<and> load_skill e fs' ?t =
           Some (Success \<lparr>skillContent = content, skillResolvedPath = ?t,
                   imported = False, skillName = None\<rparr>, fs')
       \<and> (\<forall>p c. readFile e fs p = Inr c \<longrightarrow> readFile e fs' p = Inr c)"
    if ok: "existsSync e fs0 ?d \<longrightarrow> isDirectoryAt e fs0 ?d"
  proof -
    from import_slot_mkdir [OF ab lib n ok] obtain fs1 where
      mk: "mkdirRecursive e fs0 ?d = Inr fs1" by blast
    from import_at_slot [OF ab lib esc rf0 man name t f mk] obtain fs' where
      a: "load_skill e fs0 skillPath =
         Some (Success \<lparr>skillContent = content, skillResolvedPath = ?t,
                 imported = True, skillName = Some (slotName sanitizedName k)\<rparr>, fs')"
      and b: "readFile e fs' ?t = Inr content"
      and c: "load_skill e fs' ?t =
           Some (Success \<lparr>skillContent = content, skillResolvedPath = ?t,
                   imported = False, skillName = None\<rparr>, fs')"
      and d: "\<forall>p c. readFile e fs0 p = Inr c \<longrightarrow> readFile e fs' p = Inr c"
      and g: "isDirectoryAt e fs' ?d"
      by blast
    from d r(3) have "\<forall>p c. readFile e fs p = Inr c \<longrightarrow> readFile e fs' p = Inr c" by blast
    with a b c g r(1) show ?thesis by auto
  qed
  have bad: "load_skill e fs skillPath =
      Some (Failure (if sysMessage e ''EEXIST'' ''mkdir'' [?d] = [] then ''Failed to load skill''
                     else sysMessage e ''EEXIST'' ''mkdir'' [?d]), fs0)"
    if "existsSync e fs0 ?d" and "\<not> isDirectoryAt e fs0 ?d"
    using import_at_file [OF ab lib esc rf0 man name t f that] r(1) by simp
  from t f good bad show ?thesis by blast
qed

theorem import_takes_first_free_slot_witness:
  "load_skill sampleEnv sampleDisk ''/ext1/widget/SKILL.md''
     = Some (Success \<lparr>skillContent = ''one'', skillResolvedPath = ''/u/skills/widget/SKILL.md'',
                      imported = True, skillName = Some ''widget''\<rparr>, diskAfterFirstImport)
   \<and> load_skill sampleEnv diskAfterFirstImport ''/ext2/widget/SKILL.md''
     = Some (Success \<lparr>skillContent = ''two'', skillResolvedPath = ''/u/skills/widget-1/SKILL.md'',
                      imported = True, skillName = Some ''widget-1''\<rparr>, diskAfterSecondImport)
   \<and> load_skill sampleEnv diskAfterSecondImport ''/u/skills/widget/SKILL.md''
     = Some (Success \<lparr>skillContent = ''one'', skillResolvedPath = ''/u/skills/widget/SKILL.md'',
                      imported = False, skillName = None\<rparr>, diskAfterSecondImport)
   \<and> load_skill sampleEnv diskAfterSecondImport ''/u/skills/widget-1/SKILL.md''
     = Some (Success \<lparr>skillContent = ''two'', skillResolvedPath = ''/u/skills/widget-1/SKILL.md'',
                      imported = False, skillName = None\<rparr>, diskAfterSecondImport)
   \<and> slotTaken sampleEnv diskAfterFirstImport ''widget'' 0
   \<and> \<not> slotTaken sampleEnv diskAfterFirstImport ''widget'' 1
   \<and> (\<exists>fs'. load_skill sampleEnv diskAfterFirstImport ''/ext2/widget/SKILL.md'' =
              Some (Success \<lparr>skillContent = ''two'',
                      skillResolvedPath = ''/u/skills/widget-1/SKILL.md'',
                      imported = True, skillName = Some ''widget-1''\<rparr>, fs')
            \<and> isDirectoryAt sampleEnv fs' ''/u/skills/widget-1''
            \<and> readFile sampleEnv fs' ''/u/skills/widget-1/SKILL.md'' = Inr ''two''
            \<and> readFile sampleEnv fs' ''/u/skills/widget/SKILL.md'' = Inr ''one'')"
proof -
  have h: "isAbsolute (userData sampleEnv)"
    "mkdirRecursive sampleEnv diskAfterFirstImport (getSkillsDir sampleEnv) = Inr diskAfterFirstImport"
    "validateSkillPath sampleEnv ''/ext2/widget/SKILL.md'' (getSkillsDir sampleEnv) = Inl PathEscape"
    "readFile sampleEnv diskAfterFirstImport (resolve (cwd sampleEnv) ''/ext2/widget/SKILL.md'')
       = Inr ''two''"
    "toLowerCase (basename (resolve (cwd sampleEnv) ''/ext2/widget/SKILL.md'')) = ''skill.md''"
    "importedName sampleEnv (resolve (cwd sampleEnv) ''/ext2/widget/SKILL.md'') = Inr ''widget''"
    by code_simp+
  have e1: "load_skill sampleEnv sampleDisk ''/ext1/widget/SKILL.md''
     = Some (Success \<lparr>skillContent = ''one'', skillResolvedPath = ''/u/skills/widget/SKILL.md'',
                      imported = True, skillName = Some ''widget''\<rparr>, diskAfterFirstImport)"
    by code_simp
  have e2: "load_skill sampleEnv diskAfterFirstImport ''/ext2/widget/SKILL.md''
     = Some (Success \<lparr>skillContent = ''two'', skillResolvedPath = ''/u/skills/widget-1/SKILL.md'',
                      imported = True, skillName = Some ''widget-1''\<rparr>, diskAfterSecondImport)"
    by code_simp
  have e3: "load_skill sampleEnv diskAfterSecondImport ''/u/skills/widget/SKILL.md''
     = Some (Success \<lparr>skillContent = ''one'', skillResolvedPath = ''/u/skills/widget/SKILL.md'',
                      imported = False, skillName = None\<rparr>, diskAfterSecondImport)"
    by code_simp
  have e4: "load_skill sampleEnv diskAfterSecondImport ''/u/skills/widget-1/SKILL.md''
     = Some (Success \<lparr>skillContent = ''two'', skillResolvedPath = ''/u/skills/widget-1/SKILL.md'',
                      imported = False, skillName = None\<rparr>, diskAfterSecondImport)"
    by code_simp
  have s: "slotTaken sampleEnv diskAfterFirstImport ''widget'' 0"
    "\<not> slotTaken sampleEnv diskAfterFirstImport ''widget'' 1"
    by code_simp+
  have p: "slotName ''widget'' 1 = ''widget-1''"
    "join [getSkillsDir sampleEnv, ''widget-1''] = ''/u/skills/widget-1''"
    "join [''/u/skills/widget-1'', ''SKILL.md''] = ''/u/skills/widget-1/SKILL.md''"
    "\<not> existsSync sampleEnv diskAfterFirstImport ''/u/skills/widget-1''"
    by code_simp+
  have o: "readFile sampleEnv diskAfterFirstImport ''/u/skills/widget/SKILL.md'' = Inr ''one''"
    by code_simp
  from import_takes_first_free_slot [OF h] obtain k where
    t: "\<forall>j<k. slotTaken sampleEnv diskAfterFirstImport ''widget'' j"
    and f: "\<not> slotTaken sampleEnv diskAfterFirstImport ''widget'' k"
    and g: "(existsSync sampleEnv diskAfterFirstImport (join [getSkillsDir sampleEnv, slotName ''widget'' k])
               \<longrightarrow> isDirectoryAt sampleEnv diskAfterFirstImport
                     (join [getSkillsDir sampleEnv, slotName ''widget'' k])) \<longrightarrow>
            (\<exists>fs'.
               load_skill sampleEnv diskAfterFirstImport ''/ext2/widget/SKILL.md'' =
                 Some (Success \<lparr>skillContent = ''two'',
                         skillResolvedPath =
                           join [join [getSkillsDir sampleEnv, slotName ''widget'' k], ''SKILL.md''],
                         imported = True, skillName = Some (slotName ''widget'' k)\<rparr>, fs')
               \<and> isDirectoryAt sampleEnv fs' (join [getSkillsDir sampleEnv, slotName ''widget'' k])
               \<and> readFile sampleEnv fs'
                     (join [join [getSkillsDir sampleEnv, slotName ''widget'' k], ''SKILL.md''])
                   = Inr ''two''
               \<and> load_skill sampleEnv fs'
                     (join [join [getSkillsDir sampleEnv, slotName ''widget'' k], ''SKILL.md'']) =
                   Some (Success \<lparr>skillContent = ''two'',
                           skillResolvedPath =
                             join [join [getSkillsDir sampleEnv, slotName ''widget'' k], ''SKILL.md''],
                           imported = False, skillName = None\<rparr>, fs')
               \<and> (\<forall>p c. readFile sampleEnv diskAfterFirstImport p = Inr c
                      \<longrightarrow> readFile sampleEnv fs' p = Inr c))"
    by blast
  have "k \<noteq> 0"
  proof
    assume "k = 0"
    with f s(1) show False by simp
  qed
  moreover have "\<not> 1 < k"
  proof
    assume "1 < k"
    with t have "slotTaken sampleEnv diskAfterFirstImport ''widget'' 1" by blast
    with s(2) show False by simp
  qed
  ultimately have k: "k = 1" by simp
  from g [unfolded k p] p(4) o obtain fs' where
    "load_skill sampleEnv diskAfterFirstImport ''/ext2/widget/SKILL.md'' =
       Some (Success \<lparr>skillContent = ''two'', skillResolvedPath = ''/u/skills/widget-1/SKILL.md'',
               imported = True, skillName = Some ''widget-1''\<rparr>, fs')
     \<and> isDirectoryAt sampleEnv fs' ''/u/skills/widget-1''
     \<and> readFile sampleEnv fs' ''/u/skills/widget-1/SKILL.md'' = Inr ''two''
     \<and> readFile sampleEnv fs' ''/u/skills/widget/SKILL.md'' = Inr ''one''"
    by blast
  with e1 e2 e3 e4 s show ?thesis by blast
qed

text \<open>
  The directory that receives the copy is not always a new one.  In a library where
  \<^verbatim>\<open>widget\<close> has a manifest and the folder \<^verbatim>\<open>widget-1\<close> holds \<^verbatim>\<open>notes.txt\<close> only, the
  import goes into that folder, beside the file.  Where \<^verbatim>\<open>widget-1\<close> is a regular file,
  the import fails.
\<close>

theorem import_into_existing_counterexample:
  "slotTaken sampleEnv libraryWithFolder ''widget'' 0
   \<and> isDirectoryAt sampleEnv libraryWithFolder ''/u/skills/widget-1''
   \<and> load_skill sampleEnv libraryWithFolder ''/ext2/widget/SKILL.md'' =
       Some (Success \<lparr>skillContent = ''two'', skillResolvedPath = ''/u/skills/widget-1/SKILL.md'',
               imported = True, skillName = Some ''widget-1''\<rparr>,
             Dir [(''u'', Dir [(''skills'', Dir [(''widget'', Dir [(''SKILL.md'', File ''one'')]),
                     (''widget-1'', Dir [(''notes.txt'', File ''n''), (''SKILL.md'', File ''two'')])])]),
                  (''ext2'', Dir [(''widget'', Dir [(''SKILL.md'', File ''two'')])])])
   \<and> slotTaken sampleEnv libraryWithFile ''widget'' 0
   \<and> load_skill sampleEnv libraryWithFile ''/ext2/widget/SKILL.md'' =
       Some (Failure (sysMessage sampleEnv ''EEXIST'' ''mkdir'' [''/u/skills/widget-1'']),
             libraryWithFile)"
  by code_simp

section \<open>The order of the tree that \<open>buildFileTree\<close> returns\<close>

text \<open>
  Claim C4.  For a consistent collation, the list that \<open>buildFileTree\<close> returns has its
  folders before its files, with the names of the folders and the names of the files each in
  ascending order, and so has the list of children of every folder in it, at every level.
  A directory that lists the files \<^verbatim>\<open>b.txt\<close>, \<^verbatim>\<open>a.txt\<close> and the folder \<^verbatim>\<open>z\<close> gives
  \<^verbatim>\<open>z\<close>, \<^verbatim>\<open>a.txt\<close>, \<^verbatim>\<open>b.txt\<close> in every collation that puts \<^verbatim>\<open>b.txt\<close> after \<^verbatim>\<open>a.txt\<close>.
\<close>

theorem buildFileTree_ordered:
  assumes "consistentComparator localeCompare"
  shows "levelOrdered localeCompare (buildFileTree localeCompare entries relativePath)
       \<and> list_all (treeOrdered localeCompare) (buildFileTree localeCompare entries relativePath)
       \<and> (localeCompare ''b.txt'' ''a.txt'' > 0 \<longrightarrow>
            buildFileTree localeCompare
              [(''b.txt'', File contentB), (''a.txt'', File contentA), (''z'', Dir [])] []
            = [FolderNode ''z'' ''z'' [],
               FileNode ''a.txt'' ''a.txt'' ''text'' (length contentA) True,
               FileNode ''b.txt'' ''b.txt'' ''text'' (length contentB) True])"
  using assms
  by (simp add: levelOrdered_buildFileTree treeOrdered_buildFileTree sample_listing)

theorem buildFileTree_ordered_witness:
  "buildFileTree compareCodeUnits
       [(''b.txt'', File ''B''), (''a.txt'', File ''A''), (''z'', Dir [(''n.md'', File ''N''), (''m'', Dir [])])] []
     = [FolderNode ''z'' ''z'' [FolderNode ''m'' ''z/m'' [], FileNode ''n.md'' ''z/n.md'' ''text'' 1 True],
        FileNode ''a.txt'' ''a.txt'' ''text'' 1 True,
        FileNode ''b.txt'' ''b.txt'' ''text'' 1 True]
   \<and> levelOrdered compareCodeUnits
         [FolderNode ''z'' ''z'' [FolderNode ''m'' ''z/m'' [], FileNode ''n.md'' ''z/n.md'' ''text'' 1 True],
          FileNode ''a.txt'' ''a.txt'' ''text'' 1 True,
          FileNode ''b.txt'' ''b.txt'' ''text'' 1 True]
   \<and> buildFileTree compareCodeUnits
         [(''b.txt'', File ''B''), (''a.txt'', File ''A''), (''z'', Dir [])] []
       = [FolderNode ''z'' ''z'' [],
          FileNode ''a.txt'' ''a.txt'' ''text'' (length ''A'') True,
          FileNode ''b.txt'' ''b.txt'' ''text'' (length ''B'') True]"
proof -
  have c: "consistentComparator compareCodeUnits"
    by (auto simp: consistentComparator_def compareCodeUnits_def)
  have g: "compareCodeUnits ''b.txt'' ''a.txt'' > 0"
    by code_simp
  have e: "buildFileTree compareCodeUnits
       [(''b.txt'', File ''B''), (''a.txt'', File ''A''), (''z'', Dir [(''n.md'', File ''N''), (''m'', Dir [])])] []
     = [FolderNode ''z'' ''z'' [FolderNode ''m'' ''z/m'' [], FileNode ''n.md'' ''z/n.md'' ''text'' 1 True],
        FileNode ''a.txt'' ''a.txt'' ''text'' 1 True,
        FileNode ''b.txt'' ''b.txt'' ''text'' 1 True]"
    by code_simp
  from buildFileTree_ordered [OF c,
      of "[(''b.txt'', File ''B''), (''a.txt'', File ''A''), (''z'', Dir [(''n.md'', File ''N''), (''m'', Dir [])])]"
        "[]" "''B''" "''A''"] e g
  show ?thesis by simp
qed

section \<open>Renaming onto an existing name\<close>

text \<open>
  Claim C5.  In a bundle, let \<^verbatim>\<open>a.txt\<close> and \<^verbatim>\<open>b.txt\<close> be files of the same folder (the
  bundle's directory itself, or any folder below it).  Renaming \<^verbatim>\<open>a.txt\<close> to \<^verbatim>\<open>b.txt\<close>
  fails with the message of \<open>AlreadyExists\<close>, and the disk is the one before the call, so
  \<^verbatim>\<open>a.txt\<close> is unchanged.
\<close>

theorem rename_collision:
  assumes ab: "isAbsolute (userData e)" and ne: "skillPath \<noteq> []"
    and v: "validateSkillPath e skillPath (getSkillsDir e) = Inr sp"
    and dn: "dirname sp \<noteq> ''/''"
    and f: "list_all cleanSeg folder"
    and a: "readFile e fs (join [dirname sp, joinSlash (folder @ [''a.txt''])]) = Inr contentA"
    and b: "readFile e fs (join [dirname sp, joinSlash (folder @ [''b.txt''])]) = Inr contentB"
  shows "rename_file_or_folder e fs skillPath (joinSlash (folder @ [''a.txt''])) ''b.txt''
           = (Failure ''A file or folder with that name already exists'', fs)"
proof -
  let ?d = "fsSegs e (dirname sp)"
  note d = bundle_dir [OF ab v dn]
  have ca: "cleanSeg ''a.txt''" and cb: "cleanSeg ''b.txt''"
    by (simp_all add: cleanSeg_def)
  have fa: "list_all cleanSeg (folder @ [''a.txt''])" and fb: "list_all cleanSeg (folder @ [''b.txt''])"
    using f ca cb by simp_all
  have dfa: "list_all cleanSeg (?d @ folder @ [''a.txt''])"
    and dfb: "list_all cleanSeg (?d @ folder @ [''b.txt''])"
    and df: "list_all cleanSeg (?d @ folder)"
    using d(2) fa fb f by simp_all
  have jn: "join [absPath ?d, joinSlash (folder @ [n])] = absPath (?d @ folder @ [n])"
    if "cleanSeg n" for n
  proof -
    have c: "list_all cleanSeg (folder @ [n])" using f that by simp
    then have "splitSlash (joinSlash (folder @ [n])) = folder @ [n]"
      by (intro splitSlash_joinSlash) (auto simp: list_all_iff cleanSeg_def)
    moreover have "joinSlash (folder @ [n]) \<noteq> []"
      using joinSlash_clean_Nil [OF c] by simp
    moreover have "last (joinSlash (folder @ [n])) \<noteq> CHR ''/''"
    proof -
      from that have "n \<noteq> []" "CHR ''/'' \<notin> set n" by (auto simp: cleanSeg_def)
      then have "last n \<noteq> CHR ''/''" by (metis last_in_set)
      then show ?thesis using \<open>n \<noteq> []\<close> by (simp add: last_joinSlash_snoc)
    qed
    ultimately show ?thesis
      using join_absPath [OF d(2), of "joinSlash (folder @ [n])"] c
      by (simp add: Let_def normalizeString_clean)
  qed
  have old: "validateSkillPath e (join [dirname sp, joinSlash (folder @ [''a.txt''])]) (dirname sp)
      = Inr (absPath (?d @ folder @ [''a.txt'']))"
    using validate_joined_clean [OF d(2,3) fa, of e] d(1) by simp
  have bn: "basename (absPath (?d @ folder @ [''a.txt''])) \<noteq> ''SKILL.md''"
    using basename_absPath_snoc [OF ca, of "?d @ folder"] by simp
  have dir: "dirname (absPath (?d @ folder @ [''a.txt''])) = absPath (?d @ folder)"
    using dirname_absPath_snoc [OF ca df] by simp
  have new: "validateSkillPath e (join [absPath (?d @ folder), ''b.txt'']) (dirname sp)
      = Inr (absPath (?d @ folder @ [''b.txt'']))"
    using validate_sibling [OF d(2,3) f cb, of e] d(1) by simp
  have ea: "existsSync e fs (absPath (?d @ folder @ [''a.txt'']))"
    using readFile_exists [OF a] d(1) jn [OF ca] by simp
  have eb: "existsSync e fs (absPath (?d @ folder @ [''b.txt'']))"
    using readFile_exists [OF b] d(1) jn [OF cb] by simp
  have sn: "sanitizeFileName ''b.txt'' = Inr ''b.txt''"
    by code_simp
  have jne: "joinSlash (folder @ [''a.txt'']) \<noteq> []"
    using joinSlash_clean_Nil [OF fa] by simp
  show ?thesis
    using ne jne by (simp add: rename_file_or_folder_def Let_def v old sn bn dir new ea eb)
qed

theorem rename_collision_witness:
  "rename_file_or_folder sampleEnv sampleDisk ''/u/skills/demo/SKILL.md'' ''a.txt'' ''b.txt''
     = (Failure ''A file or folder with that name already exists'', sampleDisk)
   \<and> readFile sampleEnv sampleDisk ''/u/skills/demo/a.txt'' = Inr ''A''"
proof -
  have h: "isAbsolute (userData sampleEnv)" "''/u/skills/demo/SKILL.md'' \<noteq> []"
    "validateSkillPath sampleEnv ''/u/skills/demo/SKILL.md'' (getSkillsDir sampleEnv)
       = Inr ''/u/skills/demo/SKILL.md''"
    "dirname ''/u/skills/demo/SKILL.md'' \<noteq> ''/''"
    "list_all cleanSeg []"
    by code_simp+
  have a: "readFile sampleEnv sampleDisk
      (join [dirname ''/u/skills/demo/SKILL.md'', joinSlash ([] @ [''a.txt''])]) = Inr ''A''"
    by code_simp
  have b: "readFile sampleEnv sampleDisk
      (join [dirname ''/u/skills/demo/SKILL.md'', joinSlash ([] @ [''b.txt''])]) = Inr ''B''"
    by code_simp
  have c: "readFile sampleEnv sampleDisk ''/u/skills/demo/a.txt'' = Inr ''A''"
    by code_simp
  from rename_collision [OF h a b] c show ?thesis
    by simp
qed

section \<open>Uploading a batch with an invalid name\<close>



section \<open>The size limit of \<^verbatim>\<open>load-file\<close>\<close>

text \<open>
  Claim C7.  For a file inside the library that holds more than 10 MiB (10485760 bytes),
  \<^verbatim>\<open>load-file\<close> succeeds with empty content, \<^verbatim>\<open>editable: false\<close> and \<^verbatim>\<open>tooBig: true\<close>,
  whatever the extension of the file; a file of at most 10 MiB with an editable extension is
  returned with its content, the bytes decoded.  The size that is compared and reported is
  the number of bytes that \<^verbatim>\<open>stat\<close> gives, not the number of characters of the text.
\<close>

theorem load_file_size_limit:
  assumes ne: "filePath \<noteq> []"
    and v: "validateSkillPath e filePath (getSkillsDir e) = Inr vp"
    and f: "lookup fs (fsSegs e vp) = Some (File content)"
  shows "(length content > MAX_FILE_SIZE \<longrightarrow>
            load_file e fs filePath =
              Success ([], \<lparr>metaName = basename vp, metaPath = filePath,
                            metaType = getFileType filePath, metaSize = length content,
                            metaEditable = False, metaTooBig = Some True,
                            metaError = Some ''File is too large to edit (max 10MB)''\<rparr>))
       \<and> (length content \<le> MAX_FILE_SIZE \<and> isEditableFile vp \<longrightarrow>
            load_file e fs filePath =
              Success (utf8Decode content,
                       \<lparr>metaName = basename vp, metaPath = filePath,
                        metaType = getFileType filePath, metaSize = length content,
                        metaEditable = True, metaTooBig = None, metaError = None\<rparr>))
       \<and> statSize e fs vp = Inr (length content)
       \<and> readFile e fs vp = Inr (utf8Decode content)
       \<and> MAX_FILE_SIZE = 10 * 1024 * 1024"
proof -
  from f have ex: "existsSync e fs vp" and st: "statSize e fs vp = Inr (length content)"
    and rd: "readFile e fs vp = Inr (utf8Decode content)"
    by (simp_all add: existsSync_def statSize_def readFile_def)
  show ?thesis
    using ne by (simp add: load_file_def Let_def v ex st rd MAX_FILE_SIZE_def)
qed

theorem load_file_size_limit_witness:
  "load_file sampleEnv bigDisk ''/u/skills/demo/big.md'' =
     Success ([], \<lparr>metaName = ''big.md'', metaPath = ''/u/skills/demo/big.md'',
                   metaType = ''text'', metaSize = 10485761,
                   metaEditable = False, metaTooBig = Some True,
                   metaError = Some ''File is too large to edit (max 10MB)''\<rparr>)
   \<and> load_file sampleEnv bigDisk ''/u/skills/demo/exact.md'' =
     Success (replicate 10485760 (CHR ''x''),
              \<lparr>metaName = ''exact.md'', metaPath = ''/u/skills/demo/exact.md'',
               metaType = ''text'', metaSize = 10485760,
               metaEditable = True, metaTooBig = None, metaError = None\<rparr>)
   \<and> load_file sampleEnv bigDisk ''/u/skills/demo/accent.md'' =
     Success ([], \<lparr>metaName = ''accent.md'', metaPath = ''/u/skills/demo/accent.md'',
                   metaType = ''text'', metaSize = 10485761,
                   metaEditable = False, metaTooBig = Some True,
                   metaError = Some ''File is too large to edit (max 10MB)''\<rparr>)
   \<and> readFile sampleEnv bigDisk ''/u/skills/demo/accent.md''
       = Inr (char_of (233 :: nat) # replicate 10485759 (CHR ''x''))
   \<and> length (char_of (233 :: nat) # replicate 10485759 (CHR ''x'')) = 10485760"
proof -
  have n: "''/u/skills/demo/big.md'' \<noteq> []" "''/u/skills/demo/exact.md'' \<noteq> []"
    "''/u/skills/demo/accent.md'' \<noteq> []"
    by simp_all
  have v1: "validateSkillPath sampleEnv ''/u/skills/demo/big.md'' (getSkillsDir sampleEnv)
      = Inr ''/u/skills/demo/big.md''"
    by code_simp
  have v2: "validateSkillPath sampleEnv ''/u/skills/demo/exact.md'' (getSkillsDir sampleEnv)
      = Inr ''/u/skills/demo/exact.md''"
    by code_simp
  have v3: "validateSkillPath sampleEnv ''/u/skills/demo/accent.md'' (getSkillsDir sampleEnv)
      = Inr ''/u/skills/demo/accent.md''"
    by code_simp
  have s1: "fsSegs sampleEnv ''/u/skills/demo/big.md'' = [''u'', ''skills'', ''demo'', ''big.md'']"
    by code_simp
  have s2: "fsSegs sampleEnv ''/u/skills/demo/exact.md'' = [''u'', ''skills'', ''demo'', ''exact.md'']"
    by code_simp
  have s3: "fsSegs sampleEnv ''/u/skills/demo/accent.md'' = [''u'', ''skills'', ''demo'', ''accent.md'']"
    by code_simp
  have f1: "lookup bigDisk (fsSegs sampleEnv ''/u/skills/demo/big.md'')
      = Some (File (replicate 10485761 (CHR ''x'')))"
    by (simp add: s1 bigDisk_def)
  have f2: "lookup bigDisk (fsSegs sampleEnv ''/u/skills/demo/exact.md'')
      = Some (File (replicate 10485760 (CHR ''x'')))"
    by (simp add: s2 bigDisk_def)
  have f3: "lookup bigDisk (fsSegs sampleEnv ''/u/skills/demo/accent.md'')
      = Some (File (char_of (195 :: nat) # char_of (169 :: nat) # replicate 10485759 (CHR ''x'')))"
    by (simp add: s3 bigDisk_def)
  have m: "basename ''/u/skills/demo/big.md'' = ''big.md''" "basename ''/u/skills/demo/exact.md'' = ''exact.md''"
    "basename ''/u/skills/demo/accent.md'' = ''accent.md''"
    "getFileType ''/u/skills/demo/big.md'' = ''text''" "getFileType ''/u/skills/demo/exact.md'' = ''text''"
    "getFileType ''/u/skills/demo/accent.md'' = ''text''"
    "isEditableFile ''/u/skills/demo/exact.md''"
    by code_simp+
  have x: "codeOf (CHR ''x'') < 128" by code_simp
  have c: "codeOf (char_of (195 :: nat)) = 195" "codeOf (char_of (169 :: nat)) = 169"
    by (simp_all add: codeOf_char_of)
  have d1: "utf8Decode (replicate 10485760 (CHR ''x'')) = replicate 10485760 (CHR ''x'')"
    using x by (rule utf8Decode_replicate)
  have "utf8Decode (char_of (195 :: nat) # char_of (169 :: nat) # replicate 10485759 (CHR ''x''))
      = char_of ((195 - 192) * 64 + (169 - 128) :: nat) # utf8Decode (replicate 10485759 (CHR ''x''))"
    by (simp only: utf8Decode.simps c isContinuation_def) simp
  then have d2: "utf8Decode (char_of (195 :: nat) # char_of (169 :: nat) # replicate 10485759 (CHR ''x''))
      = char_of (233 :: nat) # replicate 10485759 (CHR ''x'')"
    using utf8Decode_replicate [OF x, of 10485759] by simp
  from load_file_size_limit [OF n(1) v1 f1] load_file_size_limit [OF n(2) v2 f2]
    load_file_size_limit [OF n(3) v3 f3] m d1 d2
  show ?thesis by simp
qed

section \<open>The description of a listed bundle\<close>

text \<open>
  Claim C8 does not hold of the program.  The pattern is tried at every line of the manifest,
  not only in a header at its top, and the white space after the key runs over line breaks.
  A manifest whose header has the key \<^verbatim>\<open>description:\<close> with nothing after it is listed with
  the next line as its description, here the line \<^verbatim>\<open>---\<close> that closes the header; a manifest
  without any header is listed with the first line of its body that starts with the key; and
  \<^verbatim>\<open>list-skills\<close> reports the former for a bundle on disk.
\<close>

theorem extractDescription_beyond_header:
  "extractDescription (''---'' @ [CHR 0x0A] @ ''name: demo'' @ [CHR 0x0A] @ ''description:''
       @ [CHR 0x0A] @ ''---'' @ [CHR 0x0A] @ ''Body'') = ''---''
   \<and> extractDescription (''# Title'' @ [CHR 0x0A] @ ''description: in the body'' @ [CHR 0x0A])
       = ''in the body''
   \<and> fst (list_skills sampleEnv
        (Dir [(''u'', Dir [(''skills'', Dir [(''demo'', Dir [(''SKILL.md'',
           File (''---'' @ [CHR 0x0A] @ ''name: demo'' @ [CHR 0x0A] @ ''description:''
                 @ [CHR 0x0A] @ ''---'' @ [CHR 0x0A] @ ''Body''))])])])]))
       = [\<lparr>listedName = ''demo'', listedPath = ''/u/skills/demo/SKILL.md'',
            listedDescription = ''---''\<rparr>]"
  by code_simp

section \<open>Which targets are protected\<close>

text \<open>
  Claim C10, as the program has it.  Take a bundle path and a target path that validate
  inside the bundle.  \<^verbatim>\<open>delete-file-or-folder\<close> replies \<open>ProtectedFile\<close> if and only if the
  base name of the validated target is exactly \<^verbatim>\<open>SKILL.md\<close>.  \<^verbatim>\<open>rename-file-or-folder\<close>
  checks the new name before it looks at the manifest: it replies \<open>ProtectedFile\<close> if and
  only if the base name is \<^verbatim>\<open>SKILL.md\<close> and the new name has 1 to 255 characters and is
  accepted by \<open>sanitizeFileName\<close>.  \<^verbatim>\<open>move-file\<close> validates the new path first: it replies
  \<open>ProtectedFile\<close> if and only if the base name is \<^verbatim>\<open>SKILL.md\<close> and the new path is not
  empty and validates inside the bundle.  The base name of a target \<^verbatim>\<open>folder/name\<close> is
  \<^verbatim>\<open>name\<close> at any depth, so \<^verbatim>\<open>sub/SKILL.md\<close> is protected and \<^verbatim>\<open>skill.md\<close> is not.
\<close>

theorem protected_iff_manifest_name:
  assumes ne: "skillPath \<noteq> []" "targetPath \<noteq> []"
    and v: "validateSkillPath e skillPath (getSkillsDir e) = Inr sp"
    and t: "validateSkillPath e (join [dirname sp, targetPath]) (dirname sp) = Inr vp"
  shows "(isProtectedFile (fst (delete_file_or_folder e fs skillPath targetPath))
            \<longleftrightarrow> basename vp = ''SKILL.md'')
       \<and> (isProtectedFile (fst (rename_file_or_folder e fs skillPath targetPath newName))
            \<longleftrightarrow> basename vp = ''SKILL.md'' \<and> newName \<noteq> [] \<and> length newName \<le> 255
                  \<and> \<not> isl (sanitizeFileName newName))
       \<and> (isProtectedFile (fst (move_file e fs skillPath targetPath newPath))
            \<longleftrightarrow> basename vp = ''SKILL.md'' \<and> newPath \<noteq> []
                  \<and> \<not> isl (validateSkillPath e (join [dirname sp, newPath]) (dirname sp)))
       \<and> (isAbsolute (userData e) \<and> dirname sp \<noteq> ''/'' \<and> list_all cleanSeg folder \<and> cleanSeg name
            \<and> targetPath = joinSlash (folder @ [name]) \<longrightarrow> basename vp = name)"
proof -
  have del: "isProtectedFile (fst (delete_file_or_folder e fs skillPath targetPath))
      \<longleftrightarrow> basename vp = ''SKILL.md''"
    using ne by (auto simp: delete_file_or_folder_def Let_def v t isProtectedFile_def split: sum.splits)
  have ren: "isProtectedFile (fst (rename_file_or_folder e fs skillPath targetPath newName))
      \<longleftrightarrow> basename vp = ''SKILL.md'' \<and> newName \<noteq> [] \<and> length newName \<le> 255
            \<and> \<not> isl (sanitizeFileName newName)"
  proof (cases "sanitizeFileName newName")
    case (Inl err)
    then show ?thesis
      using ne by (simp add: rename_file_or_folder_def Let_def v t isProtectedFile_def)
  next
    case (Inr sanitized)
    then show ?thesis
      using ne
      by (auto simp: rename_file_or_folder_def Let_def v t isProtectedFile_def split: sum.splits)
  qed
  have mov: "isProtectedFile (fst (move_file e fs skillPath targetPath newPath))
      \<longleftrightarrow> basename vp = ''SKILL.md'' \<and> newPath \<noteq> []
            \<and> \<not> isl (validateSkillPath e (join [dirname sp, newPath]) (dirname sp))"
  proof (cases "validateSkillPath e (join [dirname sp, newPath]) (dirname sp)")
    case (Inl err)
    then show ?thesis
      using ne by (simp add: move_file_def Let_def v t isProtectedFile_def)
  next
    case (Inr vn)
    then show ?thesis
      using ne by (auto simp: move_file_def Let_def v t isProtectedFile_def split: sum.splits)
  qed
  have nm: "basename vp = name"
    if ab: "isAbsolute (userData e)" and dn: "dirname sp \<noteq> ''/''" and f: "list_all cleanSeg folder"
      and n: "cleanSeg name" and tp: "targetPath = joinSlash (folder @ [name])"
  proof -
    note d = bundle_dir [OF ab v dn]
    have "list_all cleanSeg (folder @ [name])" using f n by simp
    from validate_joined_clean [OF d(2,3) this, of e] d(1) t tp
    have "vp = absPath ((fsSegs e (dirname sp) @ folder) @ [name])" by simp
    then show ?thesis
      using basename_absPath_snoc [OF n, of "fsSegs e (dirname sp) @ folder"] by simp
  qed
  from del ren mov nm show ?thesis by blast
qed

theorem protected_iff_manifest_name_witness:
  "isProtectedFile (fst (delete_file_or_folder sampleEnv sampleDisk ''/u/skills/demo/SKILL.md'' ''sub/SKILL.md''))
   \<and> isProtectedFile (fst (rename_file_or_folder sampleEnv sampleDisk ''/u/skills/demo/SKILL.md'' ''sub/SKILL.md'' ''X.md''))
   \<and> isProtectedFile (fst (move_file sampleEnv sampleDisk ''/u/skills/demo/SKILL.md'' ''sub/SKILL.md'' ''moved.md''))
   \<and> \<not> isProtectedFile (fst (delete_file_or_folder sampleEnv sampleDisk ''/u/skills/demo/SKILL.md'' ''skill.md''))
   \<and> \<not> isProtectedFile (fst (rename_file_or_folder sampleEnv sampleDisk ''/u/skills/demo/SKILL.md'' ''skill.md'' ''X.md''))
   \<and> \<not> isProtectedFile (fst (move_file sampleEnv sampleDisk ''/u/skills/demo/SKILL.md'' ''skill.md'' ''moved.md''))
   \<and> basename ''/u/skills/demo/sub/SKILL.md'' = ''SKILL.md''"
proof -
  have h: "''/u/skills/demo/SKILL.md'' \<noteq> []"
    "validateSkillPath sampleEnv ''/u/skills/demo/SKILL.md'' (getSkillsDir sampleEnv)
       = Inr ''/u/skills/demo/SKILL.md''"
    by code_simp+
  have n: "''sub/SKILL.md'' \<noteq> []" "''skill.md'' \<noteq> []"
    by simp_all
  have t1: "validateSkillPath sampleEnv (join [dirname ''/u/skills/demo/SKILL.md'', ''sub/SKILL.md''])
      (dirname ''/u/skills/demo/SKILL.md'') = Inr ''/u/skills/demo/sub/SKILL.md''"
    by code_simp
  have t2: "validateSkillPath sampleEnv (join [dirname ''/u/skills/demo/SKILL.md'', ''skill.md''])
      (dirname ''/u/skills/demo/SKILL.md'') = Inr ''/u/skills/demo/skill.md''"
    by code_simp
  have s: "''X.md'' \<noteq> [] \<and> length ''X.md'' \<le> 255 \<and> \<not> isl (sanitizeFileName ''X.md'')"
    by code_simp
  have m: "''moved.md'' \<noteq> []
      \<and> \<not> isl (validateSkillPath sampleEnv (join [dirname ''/u/skills/demo/SKILL.md'', ''moved.md''])
               (dirname ''/u/skills/demo/SKILL.md''))"
    by code_simp
  have f: "isAbsolute (userData sampleEnv) \<and> dirname ''/u/skills/demo/SKILL.md'' \<noteq> ''/''
      \<and> list_all cleanSeg [''sub''] \<and> cleanSeg ''SKILL.md''
      \<and> ''sub/SKILL.md'' = joinSlash ([''sub''] @ [''SKILL.md''])"
    by code_simp
  have b: "basename ''/u/skills/demo/skill.md'' \<noteq> ''SKILL.md''"
    by code_simp
  from protected_iff_manifest_name [OF h(1) n(1) h(2) t1, of sampleDisk "''X.md''"
      "''moved.md''" "[''sub'']" "''SKILL.md''"]
    protected_iff_manifest_name [OF h(1) n(2) h(2) t2, of sampleDisk "''X.md''"
      "''moved.md''" "[''sub'']" "''SKILL.md''"]
    s m f b
  show ?thesis by simp
qed

text \<open>
  The target \<^verbatim>\<open>sub/SKILL.md\<close> validates and its base name is \<^verbatim>\<open>SKILL.md\<close>, yet a rename to a
  name without an allowed character and a move to a path outside the bundle are answered
  with the general failure of the handler, not with \<open>ProtectedFile\<close>.
\<close>

theorem protected_iff_counterexample:
  "validateSkillPath sampleEnv (join [dirname ''/u/skills/demo/SKILL.md'', ''sub/SKILL.md''])
      (dirname ''/u/skills/demo/SKILL.md'') = Inr ''/u/skills/demo/sub/SKILL.md''
   \<and> basename ''/u/skills/demo/sub/SKILL.md'' = ''SKILL.md''
   \<and> rename_file_or_folder sampleEnv sampleDisk ''/u/skills/demo/SKILL.md'' ''sub/SKILL.md'' ''###''
       = (Failure ''Failed to rename file or folder'', sampleDisk)
   \<and> \<not> isProtectedFile (fst (rename_file_or_folder sampleEnv sampleDisk
            ''/u/skills/demo/SKILL.md'' ''sub/SKILL.md'' ''###''))
   \<and> move_file sampleEnv sampleDisk ''/u/skills/demo/SKILL.md'' ''sub/SKILL.md'' ''../x''
       = (Failure ''Failed to move file'', sampleDisk)
   \<and> \<not> isProtectedFile (fst (move_file sampleEnv sampleDisk
            ''/u/skills/demo/SKILL.md'' ''sub/SKILL.md'' ''../x''))"
  by code_simp

end
